theory Spec2Isabelle
  imports Complex_Main "HOL-Library.AList" "HOL-Library.Multiset"
begin

section \<open>The offline report queue of \<^verbatim>\<open>src/stores/offlineStore.ts\<close>\<close>

text \<open>
  The store module keeps three fields in a zustand store (\<open>isOnline\<close>,
  \<open>pendingReports\<close>, \<open>syncInProgress\<close>), persists reports with localforage and
  submits them through the supabase client. The embedding threads one \<open>world\<close> value
  through every operation: the zustand fields, the localforage table, the timers armed
  with \<open>setTimeout\<close>, and the trace of every interaction with the outside (storage,
  gateway, authentication, clock, random source, console). What the outside answers is
  an \<open>environment\<close>: each answer is a function of the trace so far, so an environment
  may fail at any call it likes. An \<open>await\<close> that rejects and a \<open>throw\<close> are the
  \<open>Inl\<close> branch of a result.
\<close>

subsection \<open>Data\<close>

record File =
  name :: string
  content :: string

text \<open>The nine fields that an \<open>OfflineReport\<close> and an inserted row have in common.\<close>

record hazard_fields =
  latitude :: real
  longitude :: real
  description :: string
  severity :: string
  hazard_type :: string
  location_description :: string
  reporter_name :: string
  reporter_contact :: "string option"
  urgency_level :: string

text \<open>\<open>Omit<OfflineReport, 'id' | 'created_at' | 'synced'>\<close>, the argument of \<open>addPendingReport\<close>.\<close>

record report_data = hazard_fields +
  media_files :: "File list option"

text \<open>
  \<open>interface OfflineReport\<close>. The field \<open>id\<close> is named \<open>report_id\<close> here. The field
  \<open>created_at\<close> holds the instant in milliseconds: the source stores
  \<open>new Date().toISOString()\<close> and reads it back with \<open>new Date(s).getTime()\<close>, which
  returns the same millisecond count.
\<close>

record OfflineReport = report_data +
  report_id :: string
  created_at :: nat
  synced :: bool

text \<open>The object passed to \<open>supabase.from('reports').insert\<close>.\<close>

record report_row = hazard_fields +
  media_url :: "string list"
  user_id :: "string option"

datatype error = Error string

datatype event =
    SetItem string OfflineReport
  | Iterate
  | RemoveItem string
  | Upload string File
  | GetUser
  | Insert report_row
  | ConsoleError string error
  | DateNow
  | MathRandom

record environment =
  setItem_error :: "event list \<Rightarrow> string \<Rightarrow> OfflineReport \<Rightarrow> error option"
  iterate_error :: "event list \<Rightarrow> error option"
  removeItem_error :: "event list \<Rightarrow> string \<Rightarrow> error option"
  upload_error :: "event list \<Rightarrow> string \<Rightarrow> File \<Rightarrow> error option"
  insert_error :: "event list \<Rightarrow> report_row \<Rightarrow> error option"
  getPublicUrl :: "string \<Rightarrow> string"
  getUser :: "event list \<Rightarrow> string option"
  Date_now :: "event list \<Rightarrow> nat"
  Math_random :: "event list \<Rightarrow> string"

record OfflineState =
  isOnline :: bool
  pendingReports :: "OfflineReport list"
  syncInProgress :: bool

text \<open>
  The localforage table is an association list in the order \<open>iterate\<close> visits it. A
  new key is put last, whereas an IndexedDB driver visits in key order: the two differ
  only in the order of reports with equal \<open>created_at\<close> after a load.
  \<open>timers\<close> holds the delay of every armed \<open>setTimeout\<close>; each of them calls
  \<open>syncPendingReports\<close>.
\<close>

record world = OfflineState +
  storage :: "(string \<times> OfflineReport) list"
  timers :: "nat list"
  trace :: "event list"

subsection \<open>Primitives\<close>

definition emit :: "event \<Rightarrow> world \<Rightarrow> world" where
  "emit e w = w\<lparr>trace := trace w @ [e]\<rparr>"

definition console_error :: "string \<Rightarrow> error \<Rightarrow> world \<Rightarrow> world" where
  "console_error msg e w = emit (ConsoleError msg e) w"

definition setTimeout :: "nat \<Rightarrow> world \<Rightarrow> world" where
  "setTimeout ms w = w\<lparr>timers := timers w @ [ms]\<rparr>"

text \<open>
  \<open>localforage.setItem\<close>, \<open>iterate\<close> and \<open>removeItem\<close> return promises; a rejected
  call is the \<open>Inl\<close> branch and leaves the table as it was.
\<close>

definition setItem :: "environment \<Rightarrow> string \<Rightarrow> OfflineReport \<Rightarrow> world \<Rightarrow> (error + unit) \<times> world" where
  "setItem env key v w =
     (case setItem_error env (trace w) key v of
        Some e \<Rightarrow> (Inl e, emit (SetItem key v) w)
      | None \<Rightarrow> (Inr (), (emit (SetItem key v) w)\<lparr>storage := AList.update key v (storage w)\<rparr>))"

text \<open>
  \<open>localforage.iterate\<close> with a callback that returns nothing, so that every entry is
  visited. The callback's effect on the array it closes over is the accumulator.
\<close>

definition iterate ::
  "environment \<Rightarrow> (OfflineReport \<Rightarrow> string \<Rightarrow> 'a \<Rightarrow> 'a) \<Rightarrow> 'a \<Rightarrow> world \<Rightarrow> (error + 'a) \<times> world" where
  "iterate env callback acc w =
     (case iterate_error env (trace w) of
        Some e \<Rightarrow> (Inl e, emit Iterate w)
      | None \<Rightarrow> (Inr (foldl (\<lambda>a (key, v). callback v key a) acc (storage w)), emit Iterate w))"

definition removeItem :: "environment \<Rightarrow> string \<Rightarrow> world \<Rightarrow> (error + unit) \<times> world" where
  "removeItem env key w =
     (case removeItem_error env (trace w) key of
        Some e \<Rightarrow> (Inl e, emit (RemoveItem key) w)
      | None \<Rightarrow> (Inr (), (emit (RemoveItem key) w)\<lparr>storage := AList.delete key (storage w)\<rparr>))"

definition date_now :: "environment \<Rightarrow> world \<Rightarrow> nat \<times> world" where
  "date_now env w = (Date_now env (trace w), emit DateNow w)"

definition math_random :: "environment \<Rightarrow> world \<Rightarrow> string \<times> world" where
  "math_random env w = (Math_random env (trace w), emit MathRandom w)"

definition auth_getUser :: "environment \<Rightarrow> world \<Rightarrow> string option \<times> world" where
  "auth_getUser env w = (getUser env (trace w), emit GetUser w)"

definition upload :: "environment \<Rightarrow> string \<Rightarrow> File \<Rightarrow> world \<Rightarrow> error option \<times> world" where
  "upload env fileName file w = (upload_error env (trace w) fileName file, emit (Upload fileName file) w)"

definition insert_row :: "environment \<Rightarrow> report_row \<Rightarrow> world \<Rightarrow> error option \<times> world" where
  "insert_row env row w = (insert_error env (trace w) row, emit (Insert row) w)"

text \<open>A number inside a template literal: its decimal digits.\<close>

function string_of_nat :: "nat \<Rightarrow> string" where
  "string_of_nat n =
     (if n < 10 then [''0123456789'' ! n]
      else string_of_nat (n div 10) @ [''0123456789'' ! (n mod 10)])"
  by pat_completeness auto
termination
  by (relation "measure (\<lambda>n. n)") auto

declare string_of_nat.simps [simp del]

subsection \<open>The operations of the store\<close>

definition setOnlineStatus :: "bool \<Rightarrow> world \<Rightarrow> world" where
  "setOnlineStatus status w =
     (let w1 = w\<lparr>isOnline := status\<rparr>
      in if status then setTimeout 1000 w1 else w1)"

definition new_report :: "report_data \<Rightarrow> nat \<Rightarrow> string \<Rightarrow> nat \<Rightarrow> OfflineReport" where
  "new_report reportData now rnd stamp =
     report_data.extend reportData
       (OfflineReport.fields
          (''offline_'' @ string_of_nat now @ ''_'' @ take 9 (drop 2 rnd))
          stamp
          False)"

definition addPendingReport :: "environment \<Rightarrow> report_data \<Rightarrow> world \<Rightarrow> (error + unit) \<times> world" where
  "addPendingReport env reportData w =
     (let (now, w1) = date_now env w;
          (rnd, w2) = math_random env w1;
          (stamp, w3) = date_now env w2;
          report = new_report reportData now rnd stamp
      in (case setItem env (report_id report) report w3 of
            (Inl e, w4) \<Rightarrow> (Inl e, w4)
          | (Inr u, w4) \<Rightarrow>
              (let w5 = w4\<lparr>pendingReports := pendingReports w4 @ [report]\<rparr>
               in (Inr (), if isOnline w5 then setTimeout 500 w5 else w5))))"

text \<open>
  \<open>reports.sort((a, b) => time(b) - time(a))\<close>: \<open>Array.prototype.sort\<close> is stable, and
  so is \<open>sort_key\<close>; the key is the negated instant, so that the newest comes first.
\<close>

definition newest_first :: "OfflineReport list \<Rightarrow> OfflineReport list" where
  "newest_first reports = sort_key (\<lambda>r. - int (created_at r)) reports"

definition loadPendingReports :: "environment \<Rightarrow> world \<Rightarrow> (error + unit) \<times> world" where
  "loadPendingReports env w =
     (case iterate env (\<lambda>v key reports. if \<not> synced v then reports @ [v] else reports) [] w of
        (Inr reports, w1) \<Rightarrow> (Inr (), w1\<lparr>pendingReports := newest_first reports\<rparr>)
      | (Inl e, w1) \<Rightarrow> (Inr (), console_error ''Error loading pending reports:'' e w1))"

text \<open>The loop over \<open>report.media_files\<close>; a returned \<open>error\<close> is thrown.\<close>

fun upload_media :: "environment \<Rightarrow> File list \<Rightarrow> string list \<Rightarrow> world \<Rightarrow> (error + string list) \<times> world" where
  "upload_media env [] mediaUrls w = (Inr mediaUrls, w)"
| "upload_media env (file # files) mediaUrls w =
     (let (now, w1) = date_now env w;
          fileName = string_of_nat now @ ''_'' @ name file
      in (case upload env fileName file w1 of
            (Some e, w2) \<Rightarrow> (Inl e, w2)
          | (None, w2) \<Rightarrow> upload_media env files (mediaUrls @ [getPublicUrl env fileName]) w2))"

definition make_row :: "OfflineReport \<Rightarrow> string list \<Rightarrow> string option \<Rightarrow> report_row" where
  "make_row report mediaUrls uid =
     \<lparr>latitude = latitude report,
      longitude = longitude report,
      description = description report,
      severity = severity report,
      hazard_type = hazard_type report,
      location_description = location_description report,
      reporter_name = reporter_name report,
      reporter_contact = reporter_contact report,
      urgency_level = urgency_level report,
      media_url = mediaUrls,
      user_id = uid\<rparr>"

text \<open>The body of the inner \<open>try\<close>: uploads, insert, then the write of the synced copy.\<close>

definition sync_attempt :: "environment \<Rightarrow> OfflineReport \<Rightarrow> world \<Rightarrow> (error + unit) \<times> world" where
  "sync_attempt env report w =
     (case (case media_files report of
              Some (file # files) \<Rightarrow> upload_media env (file # files) [] w
            | _ \<Rightarrow> (Inr [], w)) of
        (Inl e, w1) \<Rightarrow> (Inl e, w1)
      | (Inr mediaUrls, w1) \<Rightarrow>
          (let (uid, w2) = auth_getUser env w1
           in (case insert_row env (make_row report mediaUrls uid) w2 of
                 (Some e, w3) \<Rightarrow> (Inl e, w3)
               | (None, w3) \<Rightarrow> setItem env (report_id report) (report\<lparr>synced := True\<rparr>) w3)))"

text \<open>One turn of the loop over the snapshot: \<open>continue\<close> on a synced report, else the
  inner \<open>try\<close> with its \<open>catch\<close>.\<close>

definition sync_report :: "environment \<Rightarrow> OfflineReport \<Rightarrow> world \<Rightarrow> world" where
  "sync_report env report w =
     (if synced report then w
      else case sync_attempt env report w of
             (Inr u, w1) \<Rightarrow> w1
           | (Inl e, w1) \<Rightarrow> console_error (''Failed to sync report '' @ report_id report @ '':'') e w1)"

fun sync_loop :: "environment \<Rightarrow> OfflineReport list \<Rightarrow> world \<Rightarrow> world" where
  "sync_loop env [] w = w"
| "sync_loop env (report # reports) w = sync_loop env reports (sync_report env report w)"

definition syncPendingReports :: "environment \<Rightarrow> world \<Rightarrow> (error + unit) \<times> world" where
  "syncPendingReports env w =
     (if \<not> isOnline w \<or> syncInProgress w \<or> length (pendingReports w) = 0 then (Inr (), w)
      else
        let w1 = w\<lparr>syncInProgress := True\<rparr>;
            w2 = sync_loop env (pendingReports w) w1
        in case loadPendingReports env w2 of
             (Inr u, w3) \<Rightarrow> (Inr (), w3\<lparr>syncInProgress := False\<rparr>)
           | (Inl e, w3) \<Rightarrow> (Inr (), (console_error ''Error during sync:'' e w3)\<lparr>syncInProgress := False\<rparr>))"

fun remove_keys :: "environment \<Rightarrow> string list \<Rightarrow> world \<Rightarrow> (error + unit) \<times> world" where
  "remove_keys env [] w = (Inr (), w)"
| "remove_keys env (key # keys) w =
     (case removeItem env key w of
        (Inl e, w1) \<Rightarrow> (Inl e, w1)
      | (Inr u, w1) \<Rightarrow> remove_keys env keys w1)"

definition clearSyncedReports :: "environment \<Rightarrow> world \<Rightarrow> (error + unit) \<times> world" where
  "clearSyncedReports env w =
     (case iterate env (\<lambda>v key keysToRemove. if synced v then keysToRemove @ [key] else keysToRemove) [] w of
        (Inl e, w1) \<Rightarrow> (Inr (), console_error ''Error clearing synced reports:'' e w1)
      | (Inr keysToRemove, w1) \<Rightarrow>
          (case remove_keys env keysToRemove w1 of
             (Inl e, w2) \<Rightarrow> (Inr (), console_error ''Error clearing synced reports:'' e w2)
           | (Inr u, w2) \<Rightarrow>
               (case loadPendingReports env w2 of
                  (Inl e, w3) \<Rightarrow> (Inr (), console_error ''Error clearing synced reports:'' e w3)
                | (Inr u', w3) \<Rightarrow> (Inr (), w3))))"





subsection \<open>Derived notions\<close>

text \<open>The attachments of a report: none when \<open>media_files\<close> is absent.\<close>

definition files_of :: "OfflineReport \<Rightarrow> File list" where
  "files_of report = (case media_files report of Some files \<Rightarrow> files | None \<Rightarrow> [])"

text \<open>
  The identifier and the report that \<open>addPendingReport\<close> builds in world \<open>w\<close>: the clock is
  read for the identifier, then the random source, then the clock again for \<open>created_at\<close>.
\<close>

definition next_id :: "environment \<Rightarrow> world \<Rightarrow> string" where
  "next_id env w =
     ''offline_'' @ string_of_nat (Date_now env (trace w)) @ ''_''
       @ take 9 (drop 2 (Math_random env (trace w @ [DateNow])))"

definition next_report :: "environment \<Rightarrow> report_data \<Rightarrow> world \<Rightarrow> OfflineReport" where
  "next_report env reportData w =
     new_report reportData (Date_now env (trace w)) (Math_random env (trace w @ [DateNow]))
       (Date_now env (trace w @ [DateNow, MathRandom]))"

text \<open>
  The store holds one record per key, under the record's own identifier; a report of the
  projection \<open>agrees\<close> with the store when the store holds nothing under its identifier or
  the same report up to the sync flag. \<open>queue_inv\<close> holds when the projection is empty
  (as at start-up) over such a store, and every operation keeps it as long as
  \<open>addPendingReport\<close> draws an identifier that is not in use.
\<close>

definition store_ok :: "(string \<times> OfflineReport) list \<Rightarrow> bool" where
  "store_ok db = (distinct (map fst db) \<and> list_all (\<lambda>(key, v). report_id v = key) db)"

definition agrees :: "(string \<times> OfflineReport) list \<Rightarrow> OfflineReport \<Rightarrow> bool" where
  "agrees db r =
     (case map_of db (report_id r) of
        None \<Rightarrow> True
      | Some s \<Rightarrow> s\<lparr>synced := True\<rparr> = r\<lparr>synced := True\<rparr>)"

definition queue_inv :: "world \<Rightarrow> bool" where
  "queue_inv w =
     (store_ok (storage w)
      \<and> distinct (map report_id (pendingReports w))
      \<and> list_all (agrees (storage w)) (pendingReports w))"

subsection \<open>Observations used in the statements\<close>

definition sorted_newest_first :: "OfflineReport list \<Rightarrow> bool" where
  "sorted_newest_first reports = sorted_wrt (\<lambda>a b. created_at b \<le> created_at a) reports"

text \<open>
  The events added to the trace between two worlds, the uploads requested in a stretch of
  trace, and the uploads in it that the gateway answered with an error (\<open>h\<close> is the
  trace before the stretch).
\<close>

definition new_events :: "world \<Rightarrow> world \<Rightarrow> event list" where
  "new_events w w' = drop (length (trace w)) (trace w')"

definition uploads_in :: "event list \<Rightarrow> (string \<times> File) list" where
  "uploads_in es = concat (map (\<lambda>e. case e of Upload fileName f \<Rightarrow> [(fileName, f)] | _ \<Rightarrow> []) es)"

definition is_insert :: "event \<Rightarrow> bool" where
  "is_insert e = (case e of Insert row \<Rightarrow> True | _ \<Rightarrow> False)"

fun failed_uploads :: "environment \<Rightarrow> event list \<Rightarrow> event list \<Rightarrow> File list" where
  "failed_uploads env h [] = []"
| "failed_uploads env h (e # es) =
     (case e of
        Upload fileName f \<Rightarrow> (if upload_error env h fileName f \<noteq> None then [f] else [])
      | _ \<Rightarrow> [])
     @ failed_uploads env (h @ [e]) es"

text \<open>
  The errors that the store returned to the storage calls of a stretch of trace (\<open>h\<close> is
  the trace before the stretch), and the messages written with \<open>console.error\<close> in it.
\<close>

fun storage_failures :: "environment \<Rightarrow> event list \<Rightarrow> event list \<Rightarrow> error list" where
  "storage_failures env h [] = []"
| "storage_failures env h (e # es) =
     (case e of
        SetItem key v \<Rightarrow> (case setItem_error env h key v of Some x \<Rightarrow> [x] | None \<Rightarrow> [])
      | Iterate \<Rightarrow> (case iterate_error env h of Some x \<Rightarrow> [x] | None \<Rightarrow> [])
      | RemoveItem key \<Rightarrow> (case removeItem_error env h key of Some x \<Rightarrow> [x] | None \<Rightarrow> [])
      | _ \<Rightarrow> [])
     @ storage_failures env (h @ [e]) es"

definition console_errors :: "event list \<Rightarrow> (string \<times> error) list" where
  "console_errors es = concat (map (\<lambda>e. case e of ConsoleError msg x \<Rightarrow> [(msg, x)] | _ \<Rightarrow> []) es)"

subsection \<open>Sample data\<close>

definition photo1 :: File where
  "photo1 = \<lparr>name = ''a.jpg'', content = ''aa''\<rparr>"

definition photo2 :: File where
  "photo2 = \<lparr>name = ''b.jpg'', content = ''bb''\<rparr>"

definition draft0 :: report_data where
  "draft0 = \<lparr>latitude = 13, longitude = 80, description = ''debris'', severity = ''high'',
     hazard_type = ''flood'', location_description = ''pier'', reporter_name = ''asha'',
     reporter_contact = None, urgency_level = ''medium'', media_files = None\<rparr>"

definition report_a :: OfflineReport where
  "report_a = report_data.extend draft0 (OfflineReport.fields ''a'' 1 False)"

definition report_b :: OfflineReport where
  "report_b = report_data.extend (draft0\<lparr>media_files := Some [photo1, photo2]\<rparr>)
     (OfflineReport.fields ''b'' 2 False)"

definition report_c :: OfflineReport where
  "report_c = report_data.extend draft0 (OfflineReport.fields ''c'' 3 True)"

definition env_ok :: environment where
  "env_ok = \<lparr>setItem_error = (\<lambda>h key v. None), iterate_error = (\<lambda>h. None),
     removeItem_error = (\<lambda>h key. None), upload_error = (\<lambda>h fileName file. None),
     insert_error = (\<lambda>h row. None), getPublicUrl = (\<lambda>fileName. ''https://media/'' @ fileName),
     getUser = (\<lambda>h. Some ''u1''), Date_now = (\<lambda>h. 7), Math_random = (\<lambda>h. ''0.k3j5x9q2mzp'')\<rparr>"

definition env_storage_down :: environment where
  "env_storage_down = env_ok\<lparr>iterate_error := (\<lambda>h. Some (Error ''QuotaExceeded''))\<rparr>"

definition env_upload_fails :: environment where
  "env_upload_fails = env_ok\<lparr>upload_error :=
      (\<lambda>h fileName file. if file = photo2 then Some (Error ''network'') else None)\<rparr>"

definition world0 :: world where
  "world0 = \<lparr>isOnline = True, pendingReports = [], syncInProgress = False,
     storage = [], timers = [], trace = []\<rparr>"

definition world_ab :: world where
  "world_ab = world0\<lparr>pendingReports := [report_b, report_a],
      storage := [(''a'', report_a), (''b'', report_b), (''c'', report_c)]\<rparr>"

definition world_a_offline :: world where
  "world_a_offline = world0\<lparr>isOnline := False, pendingReports := [report_a], storage := [(''a'', report_a)]\<rparr>"

text \<open>
  A store whose removals fail, an environment whose clock advances with every interaction,
  a second draft, and the reports that \<open>addPendingReport\<close> builds from these drafts at the
  start world (\<open>report_7\<close> and \<open>report_7_again\<close> under the frozen clock of \<open>env_ok\<close>,
  \<open>report_9\<close> under \<open>env_clock\<close>).
\<close>

definition env_remove_fails :: environment where
  "env_remove_fails = env_ok\<lparr>removeItem_error := (\<lambda>h key. Some (Error ''blocked''))\<rparr>"

definition env_clock :: environment where
  "env_clock = env_ok\<lparr>Date_now := (\<lambda>h. 7 + length h)\<rparr>"





section \<open>Basic facts about the operations\<close>

lemma emit_simps [simp]:
  "trace (emit e w) = trace w @ [e]"
  "storage (emit e w) = storage w"
  "timers (emit e w) = timers w"
  "isOnline (emit e w) = isOnline w"
  "pendingReports (emit e w) = pendingReports w"
  "syncInProgress (emit e w) = syncInProgress w"
  by (simp_all add: emit_def)

lemma load_fail:
  assumes "iterate_error env (trace w) = Some e"
  shows "loadPendingReports env w =
      (Inr (), w\<lparr>trace := trace w @ [Iterate, ConsoleError ''Error loading pending reports:'' e]\<rparr>)"
  using assms by (simp add: loadPendingReports_def iterate_def console_error_def emit_def)

lemma iterate_unsynced_acc:
  "foldl (\<lambda>a (key, v). if \<not> synced v then a @ [v] else a) acc kvs
     = acc @ filter (\<lambda>v. \<not> synced v) (map snd kvs)"
  by (induction kvs arbitrary: acc) auto

lemma iterate_synced_keys_acc:
  "foldl (\<lambda>a (key, v). if synced v then a @ [key] else a) acc kvs
     = acc @ map fst (filter (\<lambda>(key, v). synced v) kvs)"
  by (induction kvs arbitrary: acc) auto

lemma load_ok:
  assumes "iterate_error env (trace w) = None"
  shows "loadPendingReports env w =
      (Inr (), w\<lparr>trace := trace w @ [Iterate], 
           pendingReports := newest_first (filter (\<lambda>v. \<not> synced v) (map snd (storage w)))\<rparr>)"
  using assms by (simp add: loadPendingReports_def iterate_def emit_def iterate_unsynced_acc)

lemma load_cases:
  "loadPendingReports env w =
     (case iterate_error env (trace w) of
        None \<Rightarrow> (Inr (), w\<lparr>trace := trace w @ [Iterate], 
           pendingReports := newest_first (filter (\<lambda>v. \<not> synced v) (map snd (storage w)))\<rparr>)
      | Some e \<Rightarrow> (Inr (), w\<lparr>trace := trace w @ [Iterate, ConsoleError ''Error loading pending reports:'' e]\<rparr>))"
  by (simp add: load_ok load_fail split: option.splits)

lemma load_simps [simp]:
  "fst (loadPendingReports env w) = Inr ()"
  "storage (snd (loadPendingReports env w)) = storage w"
  "timers (snd (loadPendingReports env w)) = timers w"
  "isOnline (snd (loadPendingReports env w)) = isOnline w"
  "syncInProgress (snd (loadPendingReports env w)) = syncInProgress w"
  by (simp_all add: load_cases split: option.splits)

lemma upload_media_world:
  "\<exists>new. snd (upload_media env fs urls w) = w\<lparr>trace := trace w @ new\<rparr>"
proof (induction fs arbitrary: urls w)
  case Nil
  have "snd (upload_media env [] urls w) = w\<lparr>trace := trace w @ []\<rparr>" by simp
  then show ?case by blast
next
  case (Cons f fs)
  define fileName where "fileName = string_of_nat (Date_now env (trace w)) @ ''_'' @ name f"
  define w2 where "w2 = emit (Upload fileName f) (emit DateNow w)"
  have w2: "w2 = w\<lparr>trace := trace w @ [DateNow, Upload fileName f]\<rparr>"
    by (simp add: w2_def emit_def)
  show ?case
  proof (cases "upload_error env (trace w @ [DateNow]) fileName f")
    case (Some e)
    then have "snd (upload_media env (f # fs) urls w) = w2"
      by (simp add: date_now_def upload_def Let_def fileName_def w2_def)
    with w2 show ?thesis by blast
  next
    case None
    then have "snd (upload_media env (f # fs) urls w)
        = snd (upload_media env fs (urls @ [getPublicUrl env fileName]) w2)"
      by (simp add: date_now_def upload_def Let_def fileName_def w2_def)
    moreover obtain new where
      "snd (upload_media env fs (urls @ [getPublicUrl env fileName]) w2) = w2\<lparr>trace := trace w2 @ new\<rparr>"
      using Cons.IH by blast
    ultimately have "snd (upload_media env (f # fs) urls w)
        = w\<lparr>trace := trace w @ ([DateNow, Upload fileName f] @ new)\<rparr>"
      by (simp add: w2)
    then show ?thesis by blast
  qed
qed

lemma upload_media_frame [simp]:
  "storage (snd (upload_media env fs urls w)) = storage w"
  "timers (snd (upload_media env fs urls w)) = timers w"
  "isOnline (snd (upload_media env fs urls w)) = isOnline w"
  "pendingReports (snd (upload_media env fs urls w)) = pendingReports w"
  "syncInProgress (snd (upload_media env fs urls w)) = syncInProgress w"
proof -
  obtain new where "snd (upload_media env fs urls w) = w\<lparr>trace := trace w @ new\<rparr>"
    using upload_media_world by blast
  then show
    "storage (snd (upload_media env fs urls w)) = storage w"
    "timers (snd (upload_media env fs urls w)) = timers w"
    "isOnline (snd (upload_media env fs urls w)) = isOnline w"
    "pendingReports (snd (upload_media env fs urls w)) = pendingReports w"
    "syncInProgress (snd (upload_media env fs urls w)) = syncInProgress w"
    by simp_all
qed

lemma sync_attempt_alt:
  "sync_attempt env report w =
     (case upload_media env (files_of report) [] w of
        (Inl e, w1) \<Rightarrow> (Inl e, w1)
      | (Inr mediaUrls, w1) \<Rightarrow>
          (case insert_error env (trace w1 @ [GetUser]) (make_row report mediaUrls (getUser env (trace w1))) of
             Some e \<Rightarrow> (Inl e, emit (Insert (make_row report mediaUrls (getUser env (trace w1)))) (emit GetUser w1))
           | None \<Rightarrow> setItem env (report_id report) (report\<lparr>synced := True\<rparr>)
                      (emit (Insert (make_row report mediaUrls (getUser env (trace w1)))) (emit GetUser w1))))"
  by (simp add: sync_attempt_def files_of_def auth_getUser_def insert_row_def
      split: option.splits list.splits prod.splits sum.splits)

lemma setItem_frame [simp]:
  "timers (snd (setItem env key v w)) = timers w"
  "isOnline (snd (setItem env key v w)) = isOnline w"
  "pendingReports (snd (setItem env key v w)) = pendingReports w"
  "syncInProgress (snd (setItem env key v w)) = syncInProgress w"
  by (simp_all add: setItem_def split: option.splits)

lemma setItem_storage:
  "storage (snd (setItem env key v w)) =
     (if fst (setItem env key v w) = Inr () then AList.update key v (storage w) else storage w)"
  by (simp add: setItem_def split: option.splits)

lemma sync_attempt_frame [simp]:
  "timers (snd (sync_attempt env r w)) = timers w"
  "isOnline (snd (sync_attempt env r w)) = isOnline w"
  "pendingReports (snd (sync_attempt env r w)) = pendingReports w"
  "syncInProgress (snd (sync_attempt env r w)) = syncInProgress w"
proof -
  obtain res w1 where u: "upload_media env (files_of r) [] w = (res, w1)"
    by (cases "upload_media env (files_of r) [] w")
  have w1: "timers w1 = timers w" "isOnline w1 = isOnline w"
      "pendingReports w1 = pendingReports w" "syncInProgress w1 = syncInProgress w"
    using upload_media_frame [of env "files_of r" "[]" w] by (simp_all add: u)
  show "timers (snd (sync_attempt env r w)) = timers w"
    "isOnline (snd (sync_attempt env r w)) = isOnline w"
    "pendingReports (snd (sync_attempt env r w)) = pendingReports w"
    "syncInProgress (snd (sync_attempt env r w)) = syncInProgress w"
    by (simp_all add: sync_attempt_alt u w1 split: sum.splits option.splits)
qed

lemma sync_attempt_storage:
  "storage (snd (sync_attempt env r w)) =
     (if fst (sync_attempt env r w) = Inr () then AList.update (report_id r) (r\<lparr>synced := True\<rparr>) (storage w)
      else storage w)"
proof -
  obtain res w1 where u: "upload_media env (files_of r) [] w = (res, w1)"
    by (cases "upload_media env (files_of r) [] w")
  have w1: "storage w1 = storage w"
    using upload_media_frame(1) [of env "files_of r" "[]" w] by (simp add: u)
  show ?thesis
    by (simp add: sync_attempt_alt u w1 setItem_storage split: sum.splits option.splits)
qed

lemma console_error_simps [simp]:
  "trace (console_error msg e w) = trace w @ [ConsoleError msg e]"
  "storage (console_error msg e w) = storage w"
  "timers (console_error msg e w) = timers w"
  "isOnline (console_error msg e w) = isOnline w"
  "pendingReports (console_error msg e w) = pendingReports w"
  "syncInProgress (console_error msg e w) = syncInProgress w"
  by (simp_all add: console_error_def)

lemma sync_report_frame [simp]:
  "timers (sync_report env r w) = timers w"
  "isOnline (sync_report env r w) = isOnline w"
  "pendingReports (sync_report env r w) = pendingReports w"
  "syncInProgress (sync_report env r w) = syncInProgress w"
proof -
  obtain res w1 where u: "sync_attempt env r w = (res, w1)"
    by (cases "sync_attempt env r w")
  have w1: "timers w1 = timers w" "isOnline w1 = isOnline w"
      "pendingReports w1 = pendingReports w" "syncInProgress w1 = syncInProgress w"
    using sync_attempt_frame [of env r w] by (simp_all add: u)
  show "timers (sync_report env r w) = timers w"
    "isOnline (sync_report env r w) = isOnline w"
    "pendingReports (sync_report env r w) = pendingReports w"
    "syncInProgress (sync_report env r w) = syncInProgress w"
    by (simp_all add: sync_report_def u w1 split: sum.splits)
qed

lemma sync_report_storage:
  "storage (sync_report env r w) =
     (if \<not> synced r \<and> fst (sync_attempt env r w) = Inr ()
      then AList.update (report_id r) (r\<lparr>synced := True\<rparr>) (storage w)
      else storage w)"
proof -
  obtain res w1 where u: "sync_attempt env r w = (res, w1)"
    by (cases "sync_attempt env r w")
  show ?thesis
    using sync_attempt_storage [of env r w]
    by (simp add: sync_report_def u split: sum.splits)
qed

lemma sync_loop_frame [simp]:
  "timers (sync_loop env rs w) = timers w"
  "isOnline (sync_loop env rs w) = isOnline w"
  "pendingReports (sync_loop env rs w) = pendingReports w"
  "syncInProgress (sync_loop env rs w) = syncInProgress w"
  by (induction rs arbitrary: w; simp)+



lemma sync_result [simp]: "fst (syncPendingReports env w) = Inr ()"
  by (simp add: syncPendingReports_def Let_def split: prod.splits sum.splits)

lemma sync_flag_after:
  "isOnline w \<Longrightarrow> \<not> syncInProgress w \<Longrightarrow> pendingReports w \<noteq> [] \<Longrightarrow>
     \<not> syncInProgress (snd (syncPendingReports env w))"
  by (simp add: syncPendingReports_def Let_def split: prod.splits sum.splits)

lemma sync_storage:
  "isOnline w \<Longrightarrow> \<not> syncInProgress w \<Longrightarrow> pendingReports w \<noteq> [] \<Longrightarrow>
     storage (snd (syncPendingReports env w)) = storage (sync_loop env (pendingReports w) (w\<lparr>syncInProgress := True\<rparr>))"
  apply (simp add: syncPendingReports_def Let_def split: prod.splits sum.splits)
  apply (metis load_simps(2) snd_conv)
  done

lemma setOnlineStatus_simps [simp]:
  "syncInProgress (setOnlineStatus s w) = syncInProgress w"
  "storage (setOnlineStatus s w) = storage w"
  "pendingReports (setOnlineStatus s w) = pendingReports w"
  "trace (setOnlineStatus s w) = trace w"
  "isOnline (setOnlineStatus s w) = s"
  "timers (setOnlineStatus s w) = (if s then timers w @ [1000] else timers w)"
  by (simp_all add: setOnlineStatus_def setTimeout_def Let_def)

lemma next_report_simps [simp]:
  "report_id (next_report env d w) = next_id env w"
  "synced (next_report env d w) = False"
  "created_at (next_report env d w) = Date_now env (trace w @ [DateNow, MathRandom])"
  "report_data.truncate (next_report env d w) = d"
  by (simp_all add: next_report_def next_id_def new_report_def report_data.defs OfflineReport.defs hazard_fields.defs)

lemma add_cases:
  "addPendingReport env d w =
    (let report = next_report env d w; t = trace w @ [DateNow, MathRandom, DateNow, SetItem (next_id env w) report] in
     case setItem_error env (trace w @ [DateNow, MathRandom, DateNow]) (next_id env w) report of
       Some e \<Rightarrow> (Inl e, w\<lparr>trace := t\<rparr>)
     | None \<Rightarrow> (Inr (), w\<lparr>pendingReports := pendingReports w @ [report], 
                            storage := AList.update (next_id env w) report (storage w),
                            timers := (if isOnline w then timers w @ [500] else timers w),
                            trace := t\<rparr>))"
proof -
  have rid: "report_id (new_report d a b c) = ''offline_'' @ string_of_nat a @ ''_'' @ take 9 (drop 2 b)" for a b c
    by (simp add: new_report_def report_data.defs OfflineReport.defs)
  show ?thesis
    unfolding next_report_def next_id_def
    by (simp add: addPendingReport_def date_now_def math_random_def setItem_def emit_def Let_def
         setTimeout_def rid split: option.splits)
qed

lemma clear_result [simp]: "fst (clearSyncedReports env w) = Inr ()"
  by (simp add: clearSyncedReports_def split: prod.splits sum.splits)

lemma clear_iterate_fail:
  "iterate_error env (trace w) = Some e \<Longrightarrow>
     clearSyncedReports env w =
       (Inr (), w\<lparr>trace := trace w @ [Iterate, ConsoleError ''Error clearing synced reports:'' e]\<rparr>)"
  by (simp add: clearSyncedReports_def iterate_def console_error_def emit_def)

lemma removeItem_frame [simp]:
  "timers (snd (removeItem env key w)) = timers w"
  "isOnline (snd (removeItem env key w)) = isOnline w"
  "pendingReports (snd (removeItem env key w)) = pendingReports w"
  "syncInProgress (snd (removeItem env key w)) = syncInProgress w"
  by (simp_all add: removeItem_def split: option.splits)

lemma remove_keys_world:
  "\<exists>st tr. snd (remove_keys env keys w) = w\<lparr>storage := st, trace := tr\<rparr>"
proof (induction keys arbitrary: w)
  case Nil
  have "snd (remove_keys env [] w) = w\<lparr>storage := storage w, trace := trace w\<rparr>" by simp
  then show ?case by blast
next
  case (Cons key keys)
  obtain res w1 where r: "removeItem env key w = (res, w1)"
    by (cases "removeItem env key w")
  have w1: "w1 = w\<lparr>storage := storage w1, trace := trace w1\<rparr>"
    using r by (auto simp add: removeItem_def emit_def split: option.splits)
  show ?case
  proof (cases res)
    case (Inl e)
    then have "snd (remove_keys env (key # keys) w) = w1" by (simp add: r)
    with w1 show ?thesis by metis
  next
    case (Inr u)
    then have "snd (remove_keys env (key # keys) w) = snd (remove_keys env keys w1)" by (simp add: r)
    moreover obtain st tr where "snd (remove_keys env keys w1) = w1\<lparr>storage := st, trace := tr\<rparr>"
      using Cons.IH by blast
    ultimately have "snd (remove_keys env (key # keys) w) = w\<lparr>storage := st, trace := tr\<rparr>"
      using w1 by (metis world.update_convs(1) world.update_convs(3) world.surjective)
    then show ?thesis by blast
  qed
qed

lemma remove_keys_frame [simp]:
  "timers (snd (remove_keys env keys w)) = timers w"
  "isOnline (snd (remove_keys env keys w)) = isOnline w"
  "pendingReports (snd (remove_keys env keys w)) = pendingReports w"
  "syncInProgress (snd (remove_keys env keys w)) = syncInProgress w"
proof -
  obtain st tr where "snd (remove_keys env keys w) = w\<lparr>storage := st, trace := tr\<rparr>"
    using remove_keys_world by blast
  then show "timers (snd (remove_keys env keys w)) = timers w"
    "isOnline (snd (remove_keys env keys w)) = isOnline w"
    "pendingReports (snd (remove_keys env keys w)) = pendingReports w"
    "syncInProgress (snd (remove_keys env keys w)) = syncInProgress w"
    by simp_all
qed

lemma clear_frame [simp]:
  "timers (snd (clearSyncedReports env w)) = timers w"
  "isOnline (snd (clearSyncedReports env w)) = isOnline w"
  "syncInProgress (snd (clearSyncedReports env w)) = syncInProgress w"
proof -
  obtain res w1 where i: "iterate env (\<lambda>v key keysToRemove. if synced v then keysToRemove @ [key] else keysToRemove) [] w = (res, w1)"
    by (cases "iterate env (\<lambda>v key keysToRemove. if synced v then keysToRemove @ [key] else keysToRemove) [] w")
  have w1: "timers w1 = timers w" "isOnline w1 = isOnline w" "syncInProgress w1 = syncInProgress w"
    using i by (auto simp add: iterate_def split: option.splits)
  have "timers (snd (clearSyncedReports env w)) = timers w
    \<and> isOnline (snd (clearSyncedReports env w)) = isOnline w
    \<and> syncInProgress (snd (clearSyncedReports env w)) = syncInProgress w"
  proof (cases res)
    case (Inl e)
    then show ?thesis by (simp add: clearSyncedReports_def i w1)
  next
    case (Inr keys)
    obtain res2 w2 where k: "remove_keys env keys w1 = (res2, w2)"
      by (cases "remove_keys env keys w1")
    have w2: "timers w2 = timers w" "isOnline w2 = isOnline w" "syncInProgress w2 = syncInProgress w"
      using remove_keys_frame [of env keys w1] by (simp_all add: k w1)
    obtain res3 w3 where l: "loadPendingReports env w2 = (res3, w3)"
      by (cases "loadPendingReports env w2")
    have w3: "timers w3 = timers w" "isOnline w3 = isOnline w" "syncInProgress w3 = syncInProgress w"
      using load_simps [of env w2] by (simp_all add: l w2)
    show ?thesis by (simp add: clearSyncedReports_def i Inr k l w2 w3 split: sum.splits)
  qed
  then show "timers (snd (clearSyncedReports env w)) = timers w"
    "isOnline (snd (clearSyncedReports env w)) = isOnline w"
    "syncInProgress (snd (clearSyncedReports env w)) = syncInProgress w"
    by simp_all
qed

lemma add_frame [simp]:
  "syncInProgress (snd (addPendingReport env d w)) = syncInProgress w"
  "isOnline (snd (addPendingReport env d w)) = isOnline w"
  by (simp_all add: add_cases Let_def split: option.splits)

lemma string_of_nat_7: "string_of_nat 7 = ''7''"
  by (simp add: string_of_nat.simps [of 7])

lemma sorted_newest_first_sort [simp]: "sorted_newest_first (newest_first xs)"
proof -
  have "sorted (map (\<lambda>r. - int (created_at r)) (newest_first xs))"
    unfolding newest_first_def by (rule sorted_sort_key)
  then show ?thesis
    by (simp add: sorted_newest_first_def sorted_map)
qed

lemma set_newest_first [simp]: "set (newest_first xs) = set xs"
  by (simp add: newest_first_def)

lemma mset_newest_first [simp]: "mset (newest_first xs) = mset xs"
  by (simp add: newest_first_def)

lemma load_twice:
  assumes "iterate_error env (trace w) = None"
  shows "pendingReports (snd (loadPendingReports env' (snd (loadPendingReports env w))))
       = pendingReports (snd (loadPendingReports env w))"
  using assms by (simp add: load_cases [of env'] load_ok split: option.splits)

lemma remove_keys_ok:
  assumes "\<forall>h key. removeItem_error env h key = None"
  shows "fst (remove_keys env keys w) = Inr ()
       \<and> storage (snd (remove_keys env keys w)) = filter (\<lambda>(k, v). k \<notin> set keys) (storage w)"
proof (induction keys arbitrary: w)
  case Nil
  show ?case by simp
next
  case (Cons key keys)
  define w1 where "w1 = (emit (RemoveItem key) w)\<lparr>storage := AList.delete key (storage w)\<rparr>"
  have r: "removeItem env key w = (Inr (), w1)"
    using assms by (simp add: removeItem_def w1_def)
  have "storage w1 = filter (\<lambda>(k, v). k \<noteq> key) (storage w)"
    by (simp add: w1_def AList.delete_eq case_prod_unfold neq_commute)
  with Cons.IH [of w1] show ?case
    by (auto simp add: r case_prod_unfold intro: filter_cong)
qed

lemma remove_keys_subset:
  "set (storage (snd (remove_keys env keys w))) \<subseteq> set (storage w)"
proof (induction keys arbitrary: w)
  case Nil
  show ?case by simp
next
  case (Cons key keys)
  obtain res w1 where r: "removeItem env key w = (res, w1)"
    by (cases "removeItem env key w")
  have "set (storage w1) \<subseteq> set (storage w)"
    using r by (auto simp add: removeItem_def AList.delete_eq split: option.splits)
  with Cons.IH [of w1] show ?case
    by (cases res) (auto simp add: r)
qed

lemma remove_keys_keeps:
  assumes "(key, v) \<in> set (storage w)" and "key \<notin> set keys"
  shows "(key, v) \<in> set (storage (snd (remove_keys env keys w)))"
  using assms
proof (induction keys arbitrary: w)
  case Nil
  then show ?case by simp
next
  case (Cons k keys)
  obtain res w1 where r: "removeItem env k w = (res, w1)"
    by (cases "removeItem env k w")
  have "(key, v) \<in> set (storage w1)"
    using r Cons.prems by (auto simp add: removeItem_def AList.delete_eq split: option.splits)
  with Cons.IH [of w1] Cons.prems show ?case
    by (cases res) (auto simp add: r)
qed

lemma newest_first_ba: "newest_first [report_a, report_b] = [report_b, report_a]"
  by (simp add: newest_first_def report_a_def report_b_def report_data.defs OfflineReport.defs)

lemma clear_storage:
  "storage (snd (clearSyncedReports env w)) =
     (case iterate_error env (trace w) of
        Some e \<Rightarrow> storage w
      | None \<Rightarrow> storage (snd (remove_keys env
                  (map fst (filter (\<lambda>(key, v). synced v) (storage w))) (emit Iterate w))))"
proof (cases "iterate_error env (trace w)")
  case (Some e)
  then show ?thesis by (simp add: clear_iterate_fail)
next
  case None
  define keys where "keys = map fst (filter (\<lambda>(key, v). synced v) (storage w))"
  obtain res w2 where k: "remove_keys env keys (emit Iterate w) = (res, w2)"
    by (cases "remove_keys env keys (emit Iterate w)")
  obtain res3 w3 where l: "loadPendingReports env w2 = (res3, w3)"
    by (cases "loadPendingReports env w2")
  have w3: "storage w3 = storage w2"
    using load_simps(2) [of env w2] by (simp add: l)
  show ?thesis
    using None
    by (simp add: clearSyncedReports_def iterate_def iterate_synced_keys_acc
          keys_def [symmetric] k l w3 split: sum.splits)
qed

lemma clear_pending_ok:
  assumes "\<forall>h. iterate_error env h = None" and "\<forall>h key. removeItem_error env h key = None"
  shows "pendingReports (snd (clearSyncedReports env w)) =
     newest_first (filter (\<lambda>v. \<not> synced v) (map snd (storage (snd (clearSyncedReports env w)))))"
proof -
  define keys where "keys = map fst (filter (\<lambda>(key, v). synced v) (storage w))"
  obtain res w2 where k: "remove_keys env keys (emit Iterate w) = (res, w2)"
    by (cases "remove_keys env keys (emit Iterate w)")
  have res: "res = Inr ()"
    using remove_keys_ok [OF assms(2), of keys "emit Iterate w"] by (simp add: k)
  have c: "clearSyncedReports env w = (Inr (), snd (loadPendingReports env w2))"
    using assms(1)
    by (simp add: clearSyncedReports_def iterate_def iterate_synced_keys_acc
          keys_def [symmetric] k res load_ok split: sum.splits)
  show ?thesis
    using assms(1) by (simp add: c load_ok)
qed

lemma synced_keys_distinct:
  assumes "distinct (map fst db)" and "(key, v) \<in> set db"
  shows "key \<in> set (map fst (filter (\<lambda>(key, v). synced v) db)) \<longleftrightarrow> synced v"
proof
  assume "key \<in> set (map fst (filter (\<lambda>(key, v). synced v) db))"
  then obtain v' where v': "(key, v') \<in> set db" "synced v'" by auto
  with assms have "v' = v" by (meson eq_key_imp_eq_value)
  with v' show "synced v" by simp
next
  assume "synced v"
  with assms(2) show "key \<in> set (map fst (filter (\<lambda>(key, v). synced v) db))" by force
qed

lemma filter_synced_keys:
  assumes "distinct (map fst db)"
  shows "filter (\<lambda>(k, v). k \<notin> set (map fst (filter (\<lambda>(key, v). synced v) db))) db
       = filter (\<lambda>(k, v). \<not> synced v) db"
proof (rule filter_cong [OF refl])
  fix x assume "x \<in> set db"
  then have "(fst x, snd x) \<in> set db" by simp
  from synced_keys_distinct [OF assms this]
  show "(case x of (k, v) \<Rightarrow> k \<notin> set (map fst (filter (\<lambda>(key, v). synced v) db)))
      = (case x of (k, v) \<Rightarrow> \<not> synced v)"
    by (simp add: case_prod_unfold)
qed

lemma clear_keeps_unsynced:
  assumes "distinct (map fst (storage w))" and "(key, v) \<in> set (storage w)" and "\<not> synced v"
  shows "(key, v) \<in> set (storage (snd (clearSyncedReports env w)))"
proof (cases "iterate_error env (trace w)")
  case (Some e)
  with assms(2) show ?thesis by (simp add: clear_storage)
next
  case None
  have "key \<notin> set (map fst (filter (\<lambda>(key, v). synced v) (storage w)))"
    using synced_keys_distinct [OF assms(1,2)] assms(3) by simp
  moreover have "(key, v) \<in> set (storage (emit Iterate w))" using assms(2) by simp
  ultimately show ?thesis
    using None by (simp add: clear_storage remove_keys_keeps)
qed

lemma clear_subset:
  "set (storage (snd (clearSyncedReports env w))) \<subseteq> set (storage w)"
proof (cases "iterate_error env (trace w)")
  case (Some e)
  then show ?thesis by (simp add: clear_storage)
next
  case None
  then show ?thesis
    using remove_keys_subset [of env _ "emit Iterate w"] by (simp add: clear_storage)
qed

lemma clear_storage_ok:
  assumes "distinct (map fst (storage w))"
    and "\<forall>h. iterate_error env h = None" and "\<forall>h key. removeItem_error env h key = None"
  shows "storage (snd (clearSyncedReports env w)) = filter (\<lambda>(key, v). \<not> synced v) (storage w)"
  using assms(2) remove_keys_ok [OF assms(3)] filter_synced_keys [OF assms(1)]
  by (simp add: clear_storage)

lemma clear_nothing_synced:
  assumes "\<forall>(key, v) \<in> set (storage w). \<not> synced v"
  shows "storage (snd (clearSyncedReports env w)) = storage w
       \<and> (\<exists>new. trace (snd (clearSyncedReports env w)) = trace w @ new \<and> (\<forall>key. RemoveItem key \<notin> set new))"
proof -
  have keys: "map fst (filter (\<lambda>(key, v). synced v) (storage w)) = []"
    using assms by (auto simp add: filter_empty_conv)
  have st: "storage (snd (clearSyncedReports env w)) = storage w"
    by (simp add: clear_storage keys split: option.splits)
  have "\<exists>new. trace (snd (clearSyncedReports env w)) = trace w @ new \<and> (\<forall>key. RemoveItem key \<notin> set new)"
  proof (cases "iterate_error env (trace w)")
    case (Some e)
    then show ?thesis by (simp add: clear_iterate_fail)
  next
    case None
    obtain res3 w3 where l: "loadPendingReports env (emit Iterate w) = (res3, w3)"
      by (cases "loadPendingReports env (emit Iterate w)")
    have "res3 = Inr ()"
      using load_simps(1) [of env "emit Iterate w"] by (simp add: l)
    with None have c: "snd (clearSyncedReports env w) = snd (loadPendingReports env (emit Iterate w))"
      by (simp add: clearSyncedReports_def iterate_def iterate_synced_keys_acc keys l)
    show ?thesis
      by (cases "iterate_error env (trace w @ [Iterate])") (simp_all add: c load_cases)
  qed
  with st show ?thesis by simp
qed

lemma upload_media_accepts:
  assumes "\<forall>h fileName. \<forall>f \<in> set fs. upload_error env h fileName f = None"
  shows "\<exists>mediaUrls. fst (upload_media env fs urls w) = Inr mediaUrls"
  using assms
proof (induction fs arbitrary: urls w)
  case Nil
  show ?case by simp
next
  case (Cons f fs)
  then show ?case
    by (simp add: date_now_def upload_def Let_def)
qed

lemma upload_media_rejects:
  assumes "f \<in> set fs" and "\<forall>h fileName. upload_error env h fileName f \<noteq> None"
  shows "\<exists>e. fst (upload_media env fs urls w) = Inl e"
  using assms
proof (induction fs arbitrary: urls w)
  case Nil
  then show ?case by simp
next
  case (Cons g fs)
  define fileName where "fileName = string_of_nat (Date_now env (trace w)) @ ''_'' @ name g"
  show ?case
  proof (cases "upload_error env (trace w @ [DateNow]) fileName g")
    case (Some e)
    then show ?thesis
      by (simp add: date_now_def upload_def Let_def fileName_def)
  next
    case None
    have "f \<noteq> g" using None Cons.prems(2) by (metis option.distinct(1))
    with Cons.prems(1) have "f \<in> set fs" by simp
    from Cons.IH [OF this Cons.prems(2)] None show ?thesis
      by (simp add: date_now_def upload_def Let_def fileName_def)
  qed
qed

lemma sync_attempt_accepts:
  assumes "\<forall>h fileName. \<forall>f \<in> set (files_of r). upload_error env h fileName f = None"
    and "\<forall>h urls uid. insert_error env h (make_row r urls uid) = None"
    and "\<forall>h key v. setItem_error env h key v = None"
  shows "fst (sync_attempt env r w) = Inr ()"
proof -
  obtain mediaUrls where "fst (upload_media env (files_of r) [] w) = Inr mediaUrls"
    using upload_media_accepts [OF assms(1)] by blast
  then obtain w1 where u: "upload_media env (files_of r) [] w = (Inr mediaUrls, w1)"
    by (cases "upload_media env (files_of r) [] w") simp
  show ?thesis
    using assms(2,3) by (simp add: sync_attempt_alt u setItem_def)
qed

lemma sync_attempt_rejects:
  assumes "(\<exists>f \<in> set (files_of r). \<forall>h fileName. upload_error env h fileName f \<noteq> None)
         \<or> (\<forall>h urls uid. insert_error env h (make_row r urls uid) \<noteq> None)"
  shows "fst (sync_attempt env r w) \<noteq> Inr ()"
proof -
  obtain res w1 where u: "upload_media env (files_of r) [] w = (res, w1)"
    by (cases "upload_media env (files_of r) [] w")
  show ?thesis
  proof (cases res)
    case (Inl e)
    then show ?thesis by (simp add: sync_attempt_alt u)
  next
    case (Inr mediaUrls)
    have "\<not> (\<exists>f \<in> set (files_of r). \<forall>h fileName. upload_error env h fileName f \<noteq> None)"
    proof
      assume "\<exists>f \<in> set (files_of r). \<forall>h fileName. upload_error env h fileName f \<noteq> None"
      then obtain f where "f \<in> set (files_of r)" "\<forall>h fileName. upload_error env h fileName f \<noteq> None"
        by blast
      from upload_media_rejects [OF this, of "[]" w] show False by (simp add: u Inr)
    qed
    with assms have "\<forall>h urls uid. insert_error env h (make_row r urls uid) \<noteq> None" by blast
    then obtain e where "insert_error env (trace w1 @ [GetUser]) (make_row r mediaUrls (getUser env (trace w1))) = Some e"
      by (meson option.exhaust)
    then show ?thesis by (simp add: sync_attempt_alt u Inr)
  qed
qed

lemma sync_loop_untouched:
  assumes "\<forall>r \<in> set rs. report_id r = key \<longrightarrow> synced r \<or> (\<forall>w. fst (sync_attempt env r w) \<noteq> Inr ())"
  shows "map_of (storage (sync_loop env rs w)) key = map_of (storage w) key"
  using assms
proof (induction rs arbitrary: w)
  case Nil
  show ?case by simp
next
  case (Cons r rs)
  have "map_of (storage (sync_report env r w)) key = map_of (storage w) key"
  proof (cases "report_id r = key")
    case True
    with Cons.prems have "synced r \<or> fst (sync_attempt env r w) \<noteq> Inr ()" by auto
    then show ?thesis by (auto simp add: sync_report_storage)
  next
    case False
    then show ?thesis by (simp add: sync_report_storage update_conv')
  qed
  moreover have "map_of (storage (sync_loop env rs (sync_report env r w))) key
      = map_of (storage (sync_report env r w)) key"
    using Cons.prems by (intro Cons.IH) simp
  ultimately show ?case by simp
qed

lemma sync_loop_marks:
  assumes "distinct (map report_id rs)" and "r \<in> set rs" and "\<not> synced r"
    and "\<forall>w. fst (sync_attempt env r w) = Inr ()"
  shows "map_of (storage (sync_loop env rs w)) (report_id r) = Some (r\<lparr>synced := True\<rparr>)"
  using assms(1,2)
proof (induction rs arbitrary: w)
  case Nil
  then show ?case by simp
next
  case (Cons x rs)
  show ?case
  proof (cases "x = r")
    case True
    have "\<forall>r' \<in> set rs. report_id r' \<noteq> report_id r"
      using Cons.prems(1) True by (auto simp add: image_iff)
    then have "map_of (storage (sync_loop env rs (sync_report env r w))) (report_id r)
        = map_of (storage (sync_report env r w)) (report_id r)"
      by (intro sync_loop_untouched) simp
    also have "\<dots> = Some (r\<lparr>synced := True\<rparr>)"
      using assms(3,4) by (simp add: sync_report_storage update_conv')
    finally show ?thesis using True by simp
  next
    case False
    with Cons.prems have "r \<in> set rs" "distinct (map report_id rs)" by auto
    from Cons.IH [OF this(2,1)] show ?thesis by simp
  qed
qed

lemma uploads_in_simps [simp]:
  "uploads_in [] = []"
  "uploads_in (xs @ ys) = uploads_in xs @ uploads_in ys"
  "uploads_in (Upload fileName f # es) = (fileName, f) # uploads_in es"
  "uploads_in (DateNow # es) = uploads_in es"
  "uploads_in (GetUser # es) = uploads_in es"
  "uploads_in (Insert row # es) = uploads_in es"
  "uploads_in (SetItem key v # es) = uploads_in es"
  "uploads_in (ConsoleError msg e # es) = uploads_in es"
  by (simp_all add: uploads_in_def)

lemma is_insert_simps [simp]:
  "is_insert (Insert row)" "\<not> is_insert (Upload fileName f)" "\<not> is_insert DateNow"
  "\<not> is_insert GetUser" "\<not> is_insert (SetItem key v)" "\<not> is_insert (ConsoleError msg e)"
  by (simp_all add: is_insert_def)

lemma failed_uploads_append:
  "failed_uploads env h (xs @ ys) = failed_uploads env h xs @ failed_uploads env (h @ xs) ys"
  by (induction xs arbitrary: h) simp_all

lemma upload_media_trace:
  "\<exists>new. trace (snd (upload_media env fs urls w)) = trace w @ new
     \<and> (\<forall>e \<in> set new. \<not> is_insert e)
     \<and> (case fst (upload_media env fs urls w) of
          Inr mediaUrls \<Rightarrow> map snd (uploads_in new) = fs
             \<and> mediaUrls = urls @ map (getPublicUrl env) (map fst (uploads_in new))
             \<and> failed_uploads env (trace w) new = []
        | Inl e \<Rightarrow> failed_uploads env (trace w) new \<noteq> [])"
proof (induction fs arbitrary: urls w)
  case Nil
  show ?case by simp
next
  case (Cons f fs)
  define fileName where "fileName = string_of_nat (Date_now env (trace w)) @ ''_'' @ name f"
  define w2 where "w2 = emit (Upload fileName f) (emit DateNow w)"
  have t2: "trace w2 = trace w @ [DateNow, Upload fileName f]"
    by (simp add: w2_def)
  show ?case
  proof (cases "upload_error env (trace w @ [DateNow]) fileName f")
    case (Some e)
    then have "upload_media env (f # fs) urls w = (Inl e, w2)"
      by (simp add: date_now_def upload_def Let_def fileName_def w2_def)
    moreover have "failed_uploads env (trace w) [DateNow, Upload fileName f] \<noteq> []"
      using Some by simp
    ultimately have "trace (snd (upload_media env (f # fs) urls w)) = trace w @ [DateNow, Upload fileName f]
       \<and> (\<forall>e \<in> set [DateNow, Upload fileName f]. \<not> is_insert e)
       \<and> (case fst (upload_media env (f # fs) urls w) of
          Inr mediaUrls \<Rightarrow> map snd (uploads_in [DateNow, Upload fileName f]) = f # fs
             \<and> mediaUrls = urls @ map (getPublicUrl env) (map fst (uploads_in [DateNow, Upload fileName f]))
             \<and> failed_uploads env (trace w) [DateNow, Upload fileName f] = []
        | Inl e \<Rightarrow> failed_uploads env (trace w) [DateNow, Upload fileName f] \<noteq> [])"
      using t2 by (simp del: upload_media.simps failed_uploads.simps)
    then show ?thesis by blast
  next
    case None
    let ?urls = "urls @ [getPublicUrl env fileName]"
    from None have u: "upload_media env (f # fs) urls w = upload_media env fs ?urls w2"
      by (simp add: date_now_def upload_def Let_def fileName_def w2_def)
    obtain new where new: "trace (snd (upload_media env fs ?urls w2)) = trace w2 @ new"
      "\<forall>e \<in> set new. \<not> is_insert e"
      "case fst (upload_media env fs ?urls w2) of
          Inr mediaUrls \<Rightarrow> map snd (uploads_in new) = fs
             \<and> mediaUrls = ?urls @ map (getPublicUrl env) (map fst (uploads_in new))
             \<and> failed_uploads env (trace w2) new = []
        | Inl e \<Rightarrow> failed_uploads env (trace w2) new \<noteq> []"
      using Cons.IH [of ?urls w2] by blast
    let ?new = "[DateNow, Upload fileName f] @ new"
    have "trace (snd (upload_media env (f # fs) urls w)) = trace w @ ?new"
      unfolding u using new(1) by (simp add: t2)
    moreover have "\<forall>e \<in> set ?new. \<not> is_insert e"
      using new(2) by simp
    moreover have "case fst (upload_media env (f # fs) urls w) of
          Inr mediaUrls \<Rightarrow> map snd (uploads_in ?new) = f # fs
             \<and> mediaUrls = urls @ map (getPublicUrl env) (map fst (uploads_in ?new))
             \<and> failed_uploads env (trace w) ?new = []
        | Inl e \<Rightarrow> failed_uploads env (trace w) ?new \<noteq> []"
      unfolding u using new(3) None by (simp add: t2 split: sum.splits)
    ultimately show ?thesis by blast
  qed
qed


lemma quiet_events:
  assumes "\<forall>e \<in> set es. (\<exists>key v. e = SetItem key v) \<or> (\<exists>msg x. e = ConsoleError msg x)"
  shows "uploads_in es = [] \<and> failed_uploads env h es = [] \<and> (\<forall>e \<in> set es. \<not> is_insert e)"
  using assms by (induction es arbitrary: h) auto

lemma insert_split_unique:
  assumes "\<forall>e \<in> set xs. \<not> is_insert e" and "xs @ Insert a # ys = pre @ Insert b # post"
    and "\<forall>e \<in> set ys. \<not> is_insert e"
  shows "pre = xs \<and> b = a \<and> post = ys"
  using assms(1,2)
proof (induction xs arbitrary: pre)
  case Nil
  show ?case
  proof (cases pre)
    case pre_Nil: Nil
    with Nil.prems show ?thesis by simp
  next
    case pre_Cons: (Cons p ps)
    with Nil.prems have "ys = ps @ Insert b # post" by simp
    with assms(3) show ?thesis by simp
  qed
next
  case (Cons x xs)
  show ?case
  proof (cases pre)
    case pre_Nil: Nil
    with Cons.prems show ?thesis by simp
  next
    case pre_Cons: (Cons p ps)
    with Cons.prems have eq: "xs @ Insert a # ys = ps @ Insert b # post" and px: "p = x"
      and ni: "\<forall>e \<in> set xs. \<not> is_insert e" by simp_all
    from Cons.IH [OF ni eq] show ?thesis by (simp add: pre_Cons px)
  qed
qed

lemma new_events_append: "trace w' = trace w @ new \<Longrightarrow> new_events w w' = new"
  by (simp add: new_events_def)

lemma sync_report_upload_failed:
  assumes "\<not> synced r" and "upload_media env (files_of r) [] w = (Inl x, w1)"
  shows "sync_report env r w = console_error (''Failed to sync report '' @ report_id r @ '':'') x w1"
  using assms by (simp add: sync_report_def sync_attempt_alt)

lemma sync_report_uploads_done:
  assumes "\<not> synced r" and "upload_media env (files_of r) [] w = (Inr mediaUrls, w1)"
  shows "\<exists>rest. trace (sync_report env r w)
        = trace w1 @ [GetUser, Insert (make_row r mediaUrls (getUser env (trace w1)))] @ rest
      \<and> (\<forall>e \<in> set rest. (\<exists>key v. e = SetItem key v) \<or> (\<exists>msg x. e = ConsoleError msg x))"
proof -
  let ?row = "make_row r mediaUrls (getUser env (trace w1))"
  let ?w3 = "emit (Insert ?row) (emit GetUser w1)"
  let ?msg = "''Failed to sync report '' @ report_id r @ '':''"
  let ?v = "r\<lparr>synced := True\<rparr>"
  show ?thesis
  proof (cases "insert_error env (trace w1 @ [GetUser]) ?row")
    case (Some x)
    then have "trace (sync_report env r w) = trace w1 @ [GetUser, Insert ?row] @ [ConsoleError ?msg x]"
      using assms by (simp add: sync_report_def sync_attempt_alt)
    then show ?thesis by (intro exI [of _ "[ConsoleError ?msg x]"]) simp
  next
    case None
    show ?thesis
    proof (cases "setItem_error env (trace ?w3) (report_id r) ?v")
      case (Some x)
      with None have "trace (sync_report env r w)
          = trace w1 @ [GetUser, Insert ?row] @ [SetItem (report_id r) ?v, ConsoleError ?msg x]"
        using assms by (simp add: sync_report_def sync_attempt_alt setItem_def)
      then show ?thesis
        by (intro exI [of _ "[SetItem (report_id r) ?v, ConsoleError ?msg x]"]) simp
    next
      case inner: None
      with None have "trace (sync_report env r w)
          = trace w1 @ [GetUser, Insert ?row] @ [SetItem (report_id r) ?v]"
        using assms by (simp add: sync_report_def sync_attempt_alt setItem_def)
      then show ?thesis
        by (intro exI [of _ "[SetItem (report_id r) ?v]"]) simp
    qed
  qed
qed

lemma sync_report_shape:
  assumes "\<not> synced r"
  shows "\<exists>new. trace (sync_report env r w) = trace w @ new \<and>
      ((\<exists>pre msg x. new = pre @ [ConsoleError msg x] \<and> (\<forall>e \<in> set pre. \<not> is_insert e)
          \<and> failed_uploads env (trace w) pre \<noteq> [] \<and> storage (sync_report env r w) = storage w)
     \<or> (\<exists>pre rest. new = pre @ [GetUser,
                Insert (make_row r (map (getPublicUrl env) (map fst (uploads_in pre))) (getUser env (trace w @ pre)))] @ rest
          \<and> (\<forall>e \<in> set pre. \<not> is_insert e)
          \<and> map snd (uploads_in pre) = files_of r
          \<and> failed_uploads env (trace w) pre = []
          \<and> (\<forall>e \<in> set rest. (\<exists>key v. e = SetItem key v) \<or> (\<exists>msg x. e = ConsoleError msg x))))"
proof -
  obtain res w1 where u: "upload_media env (files_of r) [] w = (res, w1)"
    by (cases "upload_media env (files_of r) [] w")
  obtain pre where pre: "trace w1 = trace w @ pre" "\<forall>e \<in> set pre. \<not> is_insert e"
    "case res of
       Inr mediaUrls \<Rightarrow> map snd (uploads_in pre) = files_of r
           \<and> mediaUrls = [] @ map (getPublicUrl env) (map fst (uploads_in pre))
           \<and> failed_uploads env (trace w) pre = []
     | Inl e \<Rightarrow> failed_uploads env (trace w) pre \<noteq> []"
    using upload_media_trace [of env "files_of r" "[]" w] by (auto simp add: u)
  have st1: "storage w1 = storage w"
    using upload_media_frame(1) [of env "files_of r" "[]" w] by (simp add: u)
  show ?thesis
  proof (cases res)
    case (Inl x)
    let ?msg = "''Failed to sync report '' @ report_id r @ '':''"
    have sr: "sync_report env r w = console_error ?msg x w1"
      using assms u Inl by (simp add: sync_report_upload_failed)
    have 1: "trace (sync_report env r w) = trace w @ (pre @ [ConsoleError ?msg x])"
      and 2: "storage (sync_report env r w) = storage w"
      by (simp_all add: sr pre(1) st1)
    have 3: "failed_uploads env (trace w) pre \<noteq> []"
      using pre(3) Inl by simp
    from 1 2 3 pre(2) show ?thesis
      by (intro exI [of _ "pre @ [ConsoleError ?msg x]"] conjI disjI1 exI [of _ pre]
           exI [of _ ?msg] exI [of _ x]) simp_all
  next
    case (Inr mediaUrls)
    have mu: "mediaUrls = map (getPublicUrl env) (map fst (uploads_in pre))"
      and fs: "map snd (uploads_in pre) = files_of r"
      and fu: "failed_uploads env (trace w) pre = []"
      using pre(3) Inr by simp_all
    let ?row = "make_row r (map (getPublicUrl env) (map fst (uploads_in pre))) (getUser env (trace w @ pre))"
    obtain rest where rest: "trace (sync_report env r w) = trace w1 @ [GetUser, Insert ?row] @ rest"
      "\<forall>e \<in> set rest. (\<exists>key v. e = SetItem key v) \<or> (\<exists>msg x. e = ConsoleError msg x)"
      using sync_report_uploads_done [OF assms, of env w mediaUrls w1] u Inr
      by (auto simp add: mu pre(1))
    have 1: "trace (sync_report env r w) = trace w @ (pre @ [GetUser, Insert ?row] @ rest)"
      using rest(1) by (simp add: pre(1))
    from 1 rest(2) fs fu pre(2) show ?thesis
      by (intro exI [of _ "pre @ [GetUser, Insert ?row] @ rest"] conjI disjI2 exI [of _ pre]
           exI [of _ rest]) simp_all
  qed
qed

lemma report_b_simps:
  "report_id report_b = ''b''" "\<not> synced report_b" "media_files report_b = Some [photo1, photo2]"
  "files_of report_b = [photo1, photo2]"
  by (simp_all add: report_b_def report_data.defs OfflineReport.defs files_of_def)

lemma photo_neq: "photo1 \<noteq> photo2"
  by (simp add: photo1_def photo2_def)

lemma sync_report_b_upload_fails:
  "trace (sync_report env_upload_fails report_b world_ab) =
     [DateNow, Upload ''7_a.jpg'' photo1, DateNow, Upload ''7_b.jpg'' photo2,
      ConsoleError ''Failed to sync report b:'' (Error ''network'')]"
proof -
  have n: "name photo1 = ''a.jpg''" "name photo2 = ''b.jpg''"
    by (simp_all add: photo1_def photo2_def)
  have t: "trace world_ab = []" by (simp add: world_ab_def world0_def)
  show ?thesis
    by (simp add: sync_report_def sync_attempt_def report_b_simps date_now_def upload_def
          env_upload_fails_def env_ok_def string_of_nat_7 n t photo_neq Let_def)
qed

lemma sync_report_b_ok:
  "trace (sync_report env_ok report_b world_ab) =
     [DateNow, Upload ''7_a.jpg'' photo1, DateNow, Upload ''7_b.jpg'' photo2, GetUser,
      Insert (make_row report_b [''https://media/7_a.jpg'', ''https://media/7_b.jpg''] (Some ''u1'')),
      SetItem ''b'' (report_b\<lparr>synced := True\<rparr>)]"
proof -
  have n: "name photo1 = ''a.jpg''" "name photo2 = ''b.jpg''"
    by (simp_all add: photo1_def photo2_def)
  have t: "trace world_ab = []" by (simp add: world_ab_def world0_def)
  show ?thesis
    by (simp add: sync_report_def sync_attempt_def report_b_simps date_now_def upload_def
          auth_getUser_def insert_row_def setItem_def
          env_ok_def string_of_nat_7 n t Let_def)
qed


















lemma queue_inv_trace [simp]: "queue_inv (w\<lparr>trace := t\<rparr>) = queue_inv w"
  by (simp add: queue_inv_def)

lemma queue_inv_flag [simp]: "queue_inv (w\<lparr>syncInProgress := b\<rparr>) = queue_inv w"
  by (simp add: queue_inv_def)







lemma queue_inv_emit [simp]: "queue_inv (emit e w) = queue_inv w"
  by (simp add: emit_def)

lemma queue_inv_console_error [simp]: "queue_inv (console_error msg e w) = queue_inv w"
  by (simp add: console_error_def)




lemma report_a_simps:
  "report_id report_a = ''a''" "\<not> synced report_a" "files_of report_a = []"
  by (simp_all add: report_a_def report_data.defs OfflineReport.defs files_of_def draft0_def)

lemma report_c_simps:
  "report_id report_c = ''c''" "synced report_c"
  by (simp_all add: report_c_def report_data.defs OfflineReport.defs)

lemma queue_inv_world_ab: "queue_inv world_ab"
  by (simp add: queue_inv_def store_ok_def agrees_def world_ab_def
        report_a_simps report_b_simps report_c_simps)


lemma add_postcondition:
  assumes "fst (addPendingReport env d w) = Inr ()"
  shows "map_of (storage (snd (addPendingReport env d w))) (next_id env w) = Some (next_report env d w)"
    and "pendingReports (snd (addPendingReport env d w)) = pendingReports w @ [next_report env d w]"
    and "report_id (next_report env d w) = next_id env w"
    and "\<not> synced (next_report env d w)"
    and "report_data.truncate (next_report env d w) = d"
  using assms by (simp_all add: add_cases Let_def update_conv' split: option.splits)



lemma console_errors_simps [simp]:
  "console_errors [] = []"
  "console_errors (xs @ ys) = console_errors xs @ console_errors ys"
  "console_errors (ConsoleError msg x # es) = (msg, x) # console_errors es"
  "console_errors (Iterate # es) = console_errors es"
  "console_errors (RemoveItem key # es) = console_errors es"
  "console_errors (SetItem key v # es) = console_errors es"
  by (simp_all add: console_errors_def)

lemma storage_failures_append:
  "storage_failures env h (xs @ ys) = storage_failures env h xs @ storage_failures env (h @ xs) ys"
  by (induction xs arbitrary: h) simp_all

lemma load_reports_failures:
  "\<exists>new. trace (snd (loadPendingReports env w)) = trace w @ new
     \<and> map snd (console_errors new) = storage_failures env (trace w) new"
proof (cases "iterate_error env (trace w)")
  case None
  then have "trace (snd (loadPendingReports env w)) = trace w @ [Iterate]"
    by (simp add: load_cases)
  moreover have "map snd (console_errors [Iterate]) = storage_failures env (trace w) [Iterate]"
    using None by simp
  ultimately show ?thesis by blast
next
  case (Some e)
  let ?new = "[Iterate, ConsoleError ''Error loading pending reports:'' e]"
  have "trace (snd (loadPendingReports env w)) = trace w @ ?new"
    using Some by (simp add: load_cases)
  moreover have "map snd (console_errors ?new) = storage_failures env (trace w) ?new"
    using Some by simp
  ultimately show ?thesis by blast
qed

lemma remove_keys_trace:
  "\<exists>new. trace (snd (remove_keys env keys w)) = trace w @ new
     \<and> console_errors new = []
     \<and> storage_failures env (trace w) new
          = (case fst (remove_keys env keys w) of Inl e \<Rightarrow> [e] | Inr u \<Rightarrow> [])"
proof (induction keys arbitrary: w)
  case Nil
  have "trace (snd (remove_keys env [] w)) = trace w @ []
     \<and> console_errors [] = []
     \<and> storage_failures env (trace w) []
          = (case fst (remove_keys env [] w) of Inl e \<Rightarrow> [e] | Inr u \<Rightarrow> [])"
    by simp
  then show ?case by blast
next
  case (Cons key keys)
  show ?case
  proof (cases "removeItem_error env (trace w) key")
    case (Some e)
    then have r: "remove_keys env (key # keys) w = (Inl e, emit (RemoveItem key) w)"
      by (simp add: removeItem_def)
    have "trace (snd (remove_keys env (key # keys) w)) = trace w @ [RemoveItem key]
       \<and> console_errors [RemoveItem key] = []
       \<and> storage_failures env (trace w) [RemoveItem key]
            = (case fst (remove_keys env (key # keys) w) of Inl e \<Rightarrow> [e] | Inr u \<Rightarrow> [])"
      unfolding r using Some by simp
    then show ?thesis by blast
  next
    case None
    define w1 where "w1 = (emit (RemoveItem key) w)\<lparr>storage := AList.delete key (storage w)\<rparr>"
    have t1: "trace w1 = trace w @ [RemoveItem key]" by (simp add: w1_def)
    from None have r: "remove_keys env (key # keys) w = remove_keys env keys w1"
      by (simp add: removeItem_def w1_def)
    obtain new where new: "trace (snd (remove_keys env keys w1)) = trace w1 @ new"
      "console_errors new = []"
      "storage_failures env (trace w1) new
          = (case fst (remove_keys env keys w1) of Inl e \<Rightarrow> [e] | Inr u \<Rightarrow> [])"
      using Cons.IH [of w1] by blast
    have "trace (snd (remove_keys env (key # keys) w)) = trace w @ (RemoveItem key # new)
       \<and> console_errors (RemoveItem key # new) = []
       \<and> storage_failures env (trace w) (RemoveItem key # new)
            = (case fst (remove_keys env (key # keys) w) of Inl e \<Rightarrow> [e] | Inr u \<Rightarrow> [])"
      unfolding r using new None by (simp add: t1)
    then show ?thesis by blast
  qed
qed

lemma clear_reports_failures:
  "\<exists>new. trace (snd (clearSyncedReports env w)) = trace w @ new
     \<and> map snd (console_errors new) = storage_failures env (trace w) new"
proof (cases "iterate_error env (trace w)")
  case (Some e)
  let ?new = "[Iterate, ConsoleError ''Error clearing synced reports:'' e]"
  have "trace (snd (clearSyncedReports env w)) = trace w @ ?new"
    using Some by (simp add: clear_iterate_fail)
  moreover have "map snd (console_errors ?new) = storage_failures env (trace w) ?new"
    using Some by simp
  ultimately show ?thesis by blast
next
  case None
  define keys where "keys = map fst (filter (\<lambda>(key, v). synced v) (storage w))"
  let ?w1 = "emit Iterate w"
  obtain res w2 where k: "remove_keys env keys ?w1 = (res, w2)"
    by (cases "remove_keys env keys ?w1")
  obtain rnew where rnew: "trace w2 = trace w @ [Iterate] @ rnew" "console_errors rnew = []"
    "storage_failures env (trace w @ [Iterate]) rnew = (case res of Inl e \<Rightarrow> [e] | Inr u \<Rightarrow> [])"
    using remove_keys_trace [of env keys ?w1] by (auto simp add: k)
  show ?thesis
  proof (cases res)
    case (Inl e)
    let ?new = "[Iterate] @ rnew @ [ConsoleError ''Error clearing synced reports:'' e]"
    have c: "clearSyncedReports env w = (Inr (), console_error ''Error clearing synced reports:'' e w2)"
      using None by (simp add: clearSyncedReports_def iterate_def iterate_synced_keys_acc
            keys_def [symmetric] k Inl)
    have "trace (snd (clearSyncedReports env w)) = trace w @ ?new"
      by (simp add: c rnew(1))
    moreover have "map snd (console_errors ?new) = storage_failures env (trace w) ?new"
      using None rnew(2,3) Inl by (simp add: storage_failures_append)
    ultimately show ?thesis by blast
  next
    case (Inr u)
    obtain lnew where lnew: "trace (snd (loadPendingReports env w2)) = trace w2 @ lnew"
      "map snd (console_errors lnew) = storage_failures env (trace w2) lnew"
      using load_reports_failures [of env w2] by blast
    obtain res3 w3 where l: "loadPendingReports env w2 = (res3, w3)"
      by (cases "loadPendingReports env w2")
    have r3: "res3 = Inr ()" using load_simps(1) [of env w2] by (simp add: l)
    let ?new = "[Iterate] @ rnew @ lnew"
    have c: "clearSyncedReports env w = (Inr (), w3)"
      using None by (simp add: clearSyncedReports_def iterate_def iterate_synced_keys_acc
            keys_def [symmetric] k Inr l r3)
    have "trace (snd (clearSyncedReports env w)) = trace w @ ?new"
      using lnew(1) by (simp add: c l rnew(1))
    moreover have "map snd (console_errors ?new) = storage_failures env (trace w) ?new"
      using None rnew lnew(2) Inr by (simp add: storage_failures_append)
    ultimately show ?thesis by blast
  qed
qed

lemma clear_first_removal_fails:
  assumes "iterate_error env (trace w) = None"
    and "map fst (filter (\<lambda>(key, v). synced v) (storage w)) = key # keys"
    and "removeItem_error env (trace w @ [Iterate]) key = Some e"
  shows "clearSyncedReports env w =
       (Inr (), w\<lparr>trace := trace w @ [Iterate, RemoveItem key,
                      ConsoleError ''Error clearing synced reports:'' e]\<rparr>)"
  using assms
  by (simp add: clearSyncedReports_def iterate_def iterate_synced_keys_acc removeItem_def
        console_error_def emit_def)

lemma synced_keys_world_ab: "map fst (filter (\<lambda>(key, v). synced v) (storage world_ab)) = [''c'']"
  by (simp add: world_ab_def report_a_simps report_b_simps report_c_simps)

lemma new_report_simps [simp]:
  "report_id (new_report d now rnd stamp) = ''offline_'' @ string_of_nat now @ ''_'' @ take 9 (drop 2 rnd)"
  "synced (new_report d now rnd stamp) = False"
  "created_at (new_report d now rnd stamp) = stamp"
  "media_files (new_report d now rnd stamp) = media_files d"
  "description (new_report d now rnd stamp) = description d"
  by (simp_all add: new_report_def report_data.defs OfflineReport.defs)










lemma newest_first_Nil [simp]: "newest_first [] = []"
  by (simp add: newest_first_def)




lemma env_clock_simps [simp]:
  "getUser env_clock h = Some ''u1''" "insert_error env_clock h row = None"
  "setItem_error env_clock h key v = None" "iterate_error env_clock h = None"
  "removeItem_error env_clock h key = None" "Date_now env_clock h = 7 + length h"
  "Math_random env_clock h = ''0.k3j5x9q2mzp''"
  by (simp_all add: env_clock_def env_ok_def)



section \<open>The claims\<close>

subsection \<open>C1: one failing record does not stop the drain\<close>

text \<open>
  Claim C1. Take a batch of pending records (all unsynced, with distinct identifiers) in an
  online store with no drain in progress, a gateway that always rejects record \<open>k\<close> (one of
  its uploads, or its insert) and always accepts every other record of the batch, and a
  store that accepts writes. After one \<open>syncPendingReports\<close> every record other than \<open>k\<close> is
  stored with \<open>synced = true\<close>, record \<open>k\<close> is stored as before with \<open>synced = false\<close>, and the
  drain completes normally, with \<open>syncInProgress\<close> cleared.
\<close>

theorem partial_failure_isolation:
  assumes online: "isOnline w" and idle: "\<not> syncInProgress w"
    and k: "k \<in> set (pendingReports w)"
    and ids: "distinct (map report_id (pendingReports w))"
    and pending: "\<forall>r \<in> set (pendingReports w). \<not> synced r"
    and stored: "map_of (storage w) (report_id k) = Some k"
    and others: "\<forall>r \<in> set (pendingReports w). r \<noteq> k \<longrightarrow>
        (\<forall>h fileName. \<forall>f \<in> set (files_of r). upload_error env h fileName f = None)
      \<and> (\<forall>h urls uid. insert_error env h (make_row r urls uid) = None)"
    and fails: "(\<exists>f \<in> set (files_of k). \<forall>h fileName. upload_error env h fileName f \<noteq> None)
         \<or> (\<forall>h urls uid. insert_error env h (make_row k urls uid) \<noteq> None)"
    and store: "\<forall>h key v. setItem_error env h key v = None"
  shows "fst (syncPendingReports env w) = Inr ()
     \<and> (\<forall>r \<in> set (pendingReports w). r \<noteq> k \<longrightarrow>
          map_of (storage (snd (syncPendingReports env w))) (report_id r) = Some (r\<lparr>synced := True\<rparr>))
     \<and> map_of (storage (snd (syncPendingReports env w))) (report_id k) = Some k
     \<and> \<not> synced k
     \<and> \<not> syncInProgress (snd (syncPendingReports env w))"
proof -
  let ?w1 = "w\<lparr>syncInProgress := True\<rparr>"
  have ne: "pendingReports w \<noteq> []" using k by auto
  have st: "storage (snd (syncPendingReports env w)) = storage (sync_loop env (pendingReports w) ?w1)"
    by (rule sync_storage [OF online idle ne])
  have a: "map_of (storage (sync_loop env (pendingReports w) ?w1)) (report_id r) = Some (r\<lparr>synced := True\<rparr>)"
    if "r \<in> set (pendingReports w)" "r \<noteq> k" for r
  proof -
    have "\<forall>w'. fst (sync_attempt env r w') = Inr ()"
      using others that store by (simp add: sync_attempt_accepts)
    with ids that(1) pending show ?thesis
      by (intro sync_loop_marks) simp_all
  qed
  have "\<forall>r \<in> set (pendingReports w). report_id r = report_id k \<longrightarrow> r = k"
    using ids k by (meson distinct_map inj_onD)
  then have "\<forall>r \<in> set (pendingReports w). report_id r = report_id k \<longrightarrow>
      synced r \<or> (\<forall>w'. fst (sync_attempt env r w') \<noteq> Inr ())"
    using sync_attempt_rejects [OF fails] by blast
  then have "map_of (storage (sync_loop env (pendingReports w) ?w1)) (report_id k)
      = map_of (storage ?w1) (report_id k)"
    by (rule sync_loop_untouched)
  then have b: "map_of (storage (sync_loop env (pendingReports w) ?w1)) (report_id k) = Some k"
    using stored by simp
  show ?thesis
    using a b k pending sync_flag_after [OF online idle ne] by (simp add: st)
qed

theorem partial_failure_isolation_witness:
  "isOnline world_ab \<and> \<not> syncInProgress world_ab
   \<and> report_b \<in> set (pendingReports world_ab)
   \<and> fst (syncPendingReports env_upload_fails world_ab) = Inr ()
   \<and> map_of (storage (snd (syncPendingReports env_upload_fails world_ab))) ''a''
        = Some (report_a\<lparr>synced := True\<rparr>)
   \<and> map_of (storage (snd (syncPendingReports env_upload_fails world_ab))) ''b'' = Some report_b
   \<and> \<not> synced report_b"
proof -
  have ids: "report_id report_a = ''a''" "report_id report_b = ''b''"
    and ne: "report_a \<noteq> report_b"
    and fl: "files_of report_a = []" "files_of report_b = [photo1, photo2]"
    and sy: "\<not> synced report_a" "\<not> synced report_b"
    by (simp_all add: report_a_def report_b_def report_data.defs OfflineReport.defs files_of_def draft0_def)
  have online: "isOnline world_ab" and idle: "\<not> syncInProgress world_ab"
    and k: "report_b \<in> set (pendingReports world_ab)"
    and d: "distinct (map report_id (pendingReports world_ab))"
    and pending: "\<forall>r \<in> set (pendingReports world_ab). \<not> synced r"
    and stored: "map_of (storage world_ab) (report_id report_b) = Some report_b"
    by (simp_all add: world_ab_def world0_def ids sy)
  have others: "\<forall>r \<in> set (pendingReports world_ab). r \<noteq> report_b \<longrightarrow>
        (\<forall>h fileName. \<forall>f \<in> set (files_of r). upload_error env_upload_fails h fileName f = None)
      \<and> (\<forall>h urls uid. insert_error env_upload_fails h (make_row r urls uid) = None)"
    by (simp add: world_ab_def fl env_upload_fails_def env_ok_def)
  have fails: "(\<exists>f \<in> set (files_of report_b). \<forall>h fileName. upload_error env_upload_fails h fileName f \<noteq> None)
         \<or> (\<forall>h urls uid. insert_error env_upload_fails h (make_row report_b urls uid) \<noteq> None)"
    by (simp add: fl env_upload_fails_def)
  have store: "\<forall>h key v. setItem_error env_upload_fails h key v = None"
    by (simp add: env_upload_fails_def env_ok_def)
  have a: "report_a \<in> set (pendingReports world_ab)" by (simp add: world_ab_def)
  from partial_failure_isolation [OF online idle k d pending stored others fails store] a ne ids
  show ?thesis using online idle k by auto
qed

subsection \<open>C2: stored records only ever gain the sync flag\<close>




subsection \<open>C3: loading the projection\<close>

text \<open>
  Claim C3. Whatever the durable store holds, a \<open>loadPendingReports\<close> whose iteration
  succeeds sets the projection to exactly the stored records whose sync flag is false, each
  one as it was written (none lost, none repeated, synced ones left out), sorted newest-first by
  \<open>created_at\<close>; the store is not changed, and a second call without a change to the store
  yields the same projection, whether or not its own iteration succeeds.
\<close>

theorem load_correct:
  assumes "iterate_error env (trace w) = None"
  shows "fst (loadPendingReports env w) = Inr ()
    \<and> pendingReports (snd (loadPendingReports env w))
         = newest_first (filter (\<lambda>v. \<not> synced v) (map snd (storage w)))
    \<and> set (pendingReports (snd (loadPendingReports env w)))
         = {v. \<exists>key. (key, v) \<in> set (storage w) \<and> \<not> synced v}
    \<and> mset (pendingReports (snd (loadPendingReports env w)))
         = mset (filter (\<lambda>v. \<not> synced v) (map snd (storage w)))
    \<and> sorted_newest_first (pendingReports (snd (loadPendingReports env w)))
    \<and> storage (snd (loadPendingReports env w)) = storage w
    \<and> pendingReports (snd (loadPendingReports env' (snd (loadPendingReports env w))))
         = pendingReports (snd (loadPendingReports env w))"
proof -
  have p: "pendingReports (snd (loadPendingReports env w))
         = newest_first (filter (\<lambda>v. \<not> synced v) (map snd (storage w)))"
    using assms by (simp add: load_ok)
  have s: "set (pendingReports (snd (loadPendingReports env w)))
         = {v. \<exists>key. (key, v) \<in> set (storage w) \<and> \<not> synced v}"
    unfolding p by force
  show ?thesis
    using p s load_twice [OF assms] by simp
qed

theorem load_correct_witness:
  "iterate_error env_ok (trace (world_ab\<lparr>pendingReports := []\<rparr>)) = None
   \<and> pendingReports (snd (loadPendingReports env_ok (world_ab\<lparr>pendingReports := []\<rparr>))) = [report_b, report_a]
   \<and> pendingReports (snd (loadPendingReports env_storage_down
         (snd (loadPendingReports env_ok (world_ab\<lparr>pendingReports := []\<rparr>))))) = [report_b, report_a]"
proof -
  have h: "iterate_error env_ok (trace (world_ab\<lparr>pendingReports := []\<rparr>)) = None"
    by (simp add: env_ok_def)
  have f: "filter (\<lambda>v. \<not> synced v) (map snd (storage (world_ab\<lparr>pendingReports := []\<rparr>))) = [report_a, report_b]"
    by (simp add: world_ab_def report_a_def report_b_def report_c_def report_data.defs OfflineReport.defs)
  note lc = load_correct [OF h, of env_storage_down]
  have p: "pendingReports (snd (loadPendingReports env_ok (world_ab\<lparr>pendingReports := []\<rparr>))) = [report_b, report_a]"
    using lc by (simp only: f newest_first_ba)
  have q: "pendingReports (snd (loadPendingReports env_storage_down
         (snd (loadPendingReports env_ok (world_ab\<lparr>pendingReports := []\<rparr>))))) = [report_b, report_a]"
    using lc p by simp
  show ?thesis using h p q by simp
qed

subsection \<open>C4: the guard of the drain\<close>



subsection \<open>C5: what enqueueing leaves in the projection\<close>

text \<open>
  Claim C5. After a successful \<open>addPendingReport\<close> the projection shown to the user
  interface is sorted newest-first by \<open>created_at\<close>. The code appends the new report
  at the end of the projection: with one older report queued (created at instant 1) and a
  new one enqueued at instant 7, the projection holds the older report first.
\<close>

theorem addPendingReport_appends_at_end:
  "fst (addPendingReport env_ok draft0 world_a_offline) = Inr ()
   \<and> sorted_newest_first (pendingReports world_a_offline)
   \<and> map report_id (pendingReports (snd (addPendingReport env_ok draft0 world_a_offline)))
        = [''a'', ''offline_7_k3j5x9q2m'']
   \<and> map created_at (pendingReports (snd (addPendingReport env_ok draft0 world_a_offline))) = [1, 7]
   \<and> \<not> sorted_newest_first (pendingReports (snd (addPendingReport env_ok draft0 world_a_offline)))"
  by (simp add: add_cases Let_def env_ok_def world_a_offline_def world0_def sorted_newest_first_def
        next_id_def string_of_nat_7 report_a_def report_data.defs OfflineReport.defs)

subsection \<open>C6: uploads come before the insert\<close>

text \<open>
  Claim C6. In the attempt of the drain on one record, the insert is requested only after
  every attachment of the record has been uploaded, in order and without a failure, and it
  carries the locators of exactly these uploads; nothing is uploaded after it. If an upload
  of the attempt fails, no insert is requested for the record and the store is left
  as it was, so the record's sync flag stays false. When no upload fails, the insert is
  requested.
\<close>

theorem upload_before_insert:
  "trace (sync_report env report w) = trace w @ new_events w (sync_report env report w)
   \<and> (\<forall>pre row post. new_events w (sync_report env report w) = pre @ Insert row # post \<longrightarrow>
         map snd (uploads_in pre) = files_of report
       \<and> failed_uploads env (trace w) pre = []
       \<and> media_url row = map (getPublicUrl env) (map fst (uploads_in pre))
       \<and> uploads_in post = []
       \<and> (\<forall>e \<in> set pre \<union> set post. \<not> is_insert e))
   \<and> (failed_uploads env (trace w) (new_events w (sync_report env report w)) \<noteq> [] \<longrightarrow>
         (\<forall>e \<in> set (new_events w (sync_report env report w)). \<not> is_insert e)
       \<and> storage (sync_report env report w) = storage w)
   \<and> (\<not> synced report \<and> failed_uploads env (trace w) (new_events w (sync_report env report w)) = [] \<longrightarrow>
         (\<exists>e \<in> set (new_events w (sync_report env report w)). is_insert e))"
proof (cases "synced report")
  case True
  then have "sync_report env report w = w" by (simp add: sync_report_def)
  then show ?thesis using True by (simp add: new_events_def)
next
  case False
  from sync_report_shape [OF False, of env w]
  obtain new where t: "trace (sync_report env report w) = trace w @ new"
    and shape: "(\<exists>pre msg x. new = pre @ [ConsoleError msg x] \<and> (\<forall>e \<in> set pre. \<not> is_insert e)
          \<and> failed_uploads env (trace w) pre \<noteq> [] \<and> storage (sync_report env report w) = storage w)
     \<or> (\<exists>pre rest. new = pre @ [GetUser,
                Insert (make_row report (map (getPublicUrl env) (map fst (uploads_in pre))) (getUser env (trace w @ pre)))] @ rest
          \<and> (\<forall>e \<in> set pre. \<not> is_insert e)
          \<and> map snd (uploads_in pre) = files_of report
          \<and> failed_uploads env (trace w) pre = []
          \<and> (\<forall>e \<in> set rest. (\<exists>key v. e = SetItem key v) \<or> (\<exists>msg x. e = ConsoleError msg x)))"
    by blast
  have ne: "new_events w (sync_report env report w) = new"
    by (rule new_events_append [OF t])
  from shape show ?thesis
  proof (elim disjE exE conjE)
    fix pre msg x
    assume new: "new = pre @ [ConsoleError msg x]" and ni: "\<forall>e \<in> set pre. \<not> is_insert e"
      and fu: "failed_uploads env (trace w) pre \<noteq> []"
      and st: "storage (sync_report env report w) = storage w"
    have no_ins: "\<forall>e \<in> set new. \<not> is_insert e" using ni new by simp
    have "\<not> (\<exists>pre' row post. new = pre' @ Insert row # post)"
    proof
      assume "\<exists>pre' row post. new = pre' @ Insert row # post"
      then obtain pre' row post where "new = pre' @ Insert row # post" by blast
      then have "Insert row \<in> set new" by simp
      with no_ins show False by auto
    qed
    moreover have "failed_uploads env (trace w) new \<noteq> []"
      using fu by (simp add: new failed_uploads_append)
    ultimately show ?thesis using t no_ins st by (simp add: ne)
  next
    fix pre rest
    let ?row = "make_row report (map (getPublicUrl env) (map fst (uploads_in pre))) (getUser env (trace w @ pre))"
    assume new: "new = pre @ [GetUser, Insert ?row] @ rest"
      and ni: "\<forall>e \<in> set pre. \<not> is_insert e"
      and fs: "map snd (uploads_in pre) = files_of report"
      and fu: "failed_uploads env (trace w) pre = []"
      and rest: "\<forall>e \<in> set rest. (\<exists>key v. e = SetItem key v) \<or> (\<exists>msg x. e = ConsoleError msg x)"
    note q = quiet_events [OF rest, of env]
    have new': "new = (pre @ [GetUser]) @ Insert ?row # rest" by (simp add: new)
    have ni': "\<forall>e \<in> set (pre @ [GetUser]). \<not> is_insert e" using ni by simp
    have a: "map snd (uploads_in pre') = files_of report
       \<and> failed_uploads env (trace w) pre' = []
       \<and> media_url row = map (getPublicUrl env) (map fst (uploads_in pre'))
       \<and> uploads_in post = []
       \<and> (\<forall>e \<in> set pre' \<union> set post. \<not> is_insert e)"
      if "new = pre' @ Insert row # post" for pre' row post
    proof -
      from that new' have "(pre @ [GetUser]) @ Insert ?row # rest = pre' @ Insert row # post" by simp
      from insert_split_unique [OF ni' this] q
      have "pre' = pre @ [GetUser]" "row = ?row" "post = rest" by simp_all
      then show ?thesis
        using fs fu q ni by (auto simp add: failed_uploads_append make_row_def)
    qed
    have b: "failed_uploads env (trace w) new = []"
      using fu q by (simp add: new failed_uploads_append)
    have c: "\<exists>e \<in> set new. is_insert e" by (auto simp add: new)
    show ?thesis using t a b c by (simp add: ne)
  qed
qed

theorem upload_before_insert_witness:
  "new_events world_ab (sync_report env_upload_fails report_b world_ab) =
     [DateNow, Upload ''7_a.jpg'' photo1, DateNow, Upload ''7_b.jpg'' photo2,
      ConsoleError ''Failed to sync report b:'' (Error ''network'')]
   \<and> failed_uploads env_upload_fails (trace world_ab)
        (new_events world_ab (sync_report env_upload_fails report_b world_ab)) = [photo2]
   \<and> storage (sync_report env_upload_fails report_b world_ab) = storage world_ab
   \<and> filter is_insert (new_events world_ab (sync_report env_upload_fails report_b world_ab)) = []
   \<and> new_events world_ab (sync_report env_ok report_b world_ab) =
       [DateNow, Upload ''7_a.jpg'' photo1, DateNow, Upload ''7_b.jpg'' photo2, GetUser]
       @ Insert (make_row report_b [''https://media/7_a.jpg'', ''https://media/7_b.jpg''] (Some ''u1''))
       # [SetItem ''b'' (report_b\<lparr>synced := True\<rparr>)]
   \<and> map snd (uploads_in [DateNow, Upload ''7_a.jpg'' photo1, DateNow, Upload ''7_b.jpg'' photo2, GetUser])
       = files_of report_b"
proof -
  have t: "trace world_ab = []" by (simp add: world_ab_def world0_def)
  have n1: "new_events world_ab (sync_report env_upload_fails report_b world_ab) =
     [DateNow, Upload ''7_a.jpg'' photo1, DateNow, Upload ''7_b.jpg'' photo2,
      ConsoleError ''Failed to sync report b:'' (Error ''network'')]"
    by (simp add: new_events_def t sync_report_b_upload_fails)
  have f1: "failed_uploads env_upload_fails (trace world_ab)
        (new_events world_ab (sync_report env_upload_fails report_b world_ab)) = [photo2]"
    unfolding n1 by (simp add: env_upload_fails_def photo_neq)
  have n2: "new_events world_ab (sync_report env_ok report_b world_ab) =
       [DateNow, Upload ''7_a.jpg'' photo1, DateNow, Upload ''7_b.jpg'' photo2, GetUser]
       @ Insert (make_row report_b [''https://media/7_a.jpg'', ''https://media/7_b.jpg''] (Some ''u1''))
       # [SetItem ''b'' (report_b\<lparr>synced := True\<rparr>)]"
    by (simp add: new_events_def t sync_report_b_ok)
  from upload_before_insert [of env_upload_fails report_b world_ab] f1
  have a: "storage (sync_report env_upload_fails report_b world_ab) = storage world_ab"
    "\<forall>e \<in> set (new_events world_ab (sync_report env_upload_fails report_b world_ab)). \<not> is_insert e"
    by simp_all
  from upload_before_insert [of env_ok report_b world_ab] n2
  have b: "map snd (uploads_in [DateNow, Upload ''7_a.jpg'' photo1, DateNow, Upload ''7_b.jpg'' photo2, GetUser])
       = files_of report_b"
    by blast
  from a(2) have a': "filter is_insert (new_events world_ab (sync_report env_upload_fails report_b world_ab)) = []"
    by (simp add: filter_empty_conv)
  show ?thesis using n1 f1 a(1) a' n2 b by simp
qed

subsection \<open>C7: clearing synced reports\<close>

text \<open>
  Claim C7. On a store with one record per key, \<open>clearSyncedReports\<close> never removes a
  record whose sync flag is false and never adds one, whatever the store answers; when the
  store does not fail it removes exactly the records whose sync flag is true and then
  reloads the projection from what is left. A second call right after removes nothing: the
  store is unchanged and no removal is even requested.
\<close>

theorem clear_correct:
  assumes "distinct (map fst (storage w))"
  shows "(\<forall>key v. (key, v) \<in> set (storage w) \<and> \<not> synced v \<longrightarrow>
            (key, v) \<in> set (storage (snd (clearSyncedReports env w))))
    \<and> set (storage (snd (clearSyncedReports env w))) \<subseteq> set (storage w)
    \<and> ((\<forall>h. iterate_error env h = None) \<and> (\<forall>h key. removeItem_error env h key = None) \<longrightarrow>
          storage (snd (clearSyncedReports env w)) = filter (\<lambda>(key, v). \<not> synced v) (storage w)
        \<and> pendingReports (snd (clearSyncedReports env w)) =
            newest_first (filter (\<lambda>v. \<not> synced v) (map snd (storage (snd (clearSyncedReports env w)))))
        \<and> storage (snd (clearSyncedReports env' (snd (clearSyncedReports env w))))
            = storage (snd (clearSyncedReports env w))
        \<and> (\<exists>new. trace (snd (clearSyncedReports env' (snd (clearSyncedReports env w))))
                   = trace (snd (clearSyncedReports env w)) @ new
                 \<and> (\<forall>key. RemoveItem key \<notin> set new)))"
proof -
  have a: "\<forall>key v. (key, v) \<in> set (storage w) \<and> \<not> synced v \<longrightarrow>
            (key, v) \<in> set (storage (snd (clearSyncedReports env w)))"
    using clear_keeps_unsynced [OF assms] by blast
  have b: "storage (snd (clearSyncedReports env w)) = filter (\<lambda>(key, v). \<not> synced v) (storage w)
        \<and> pendingReports (snd (clearSyncedReports env w)) =
            newest_first (filter (\<lambda>v. \<not> synced v) (map snd (storage (snd (clearSyncedReports env w)))))
        \<and> storage (snd (clearSyncedReports env' (snd (clearSyncedReports env w))))
            = storage (snd (clearSyncedReports env w))
        \<and> (\<exists>new. trace (snd (clearSyncedReports env' (snd (clearSyncedReports env w))))
                   = trace (snd (clearSyncedReports env w)) @ new
                 \<and> (\<forall>key. RemoveItem key \<notin> set new))"
    if ok: "\<forall>h. iterate_error env h = None" "\<forall>h key. removeItem_error env h key = None"
  proof -
    have st: "storage (snd (clearSyncedReports env w)) = filter (\<lambda>(key, v). \<not> synced v) (storage w)"
      by (rule clear_storage_ok [OF assms ok])
    have "\<forall>(key, v) \<in> set (storage (snd (clearSyncedReports env w))). \<not> synced v"
      unfolding st by auto
    from clear_nothing_synced [OF this, of env'] st clear_pending_ok [OF ok, of w]
    show ?thesis by simp
  qed
  show ?thesis using a b clear_subset [of env w] by blast
qed

theorem clear_correct_witness:
  "distinct (map fst (storage world_ab))
   \<and> storage (snd (clearSyncedReports env_ok world_ab)) = [(''a'', report_a), (''b'', report_b)]
   \<and> pendingReports (snd (clearSyncedReports env_ok world_ab)) = [report_b, report_a]
   \<and> storage (snd (clearSyncedReports env_ok (snd (clearSyncedReports env_ok world_ab))))
       = [(''a'', report_a), (''b'', report_b)]"
proof -
  have d: "distinct (map fst (storage world_ab))"
    by (simp add: world_ab_def)
  have ok: "(\<forall>h. iterate_error env_ok h = None) \<and> (\<forall>h key. removeItem_error env_ok h key = None)"
    by (simp add: env_ok_def)
  have f: "filter (\<lambda>(key, v). \<not> synced v) (storage world_ab) = [(''a'', report_a), (''b'', report_b)]"
    by (simp add: world_ab_def report_a_def report_b_def report_c_def report_data.defs OfflineReport.defs)
  have st: "storage (snd (clearSyncedReports env_ok world_ab)) = [(''a'', report_a), (''b'', report_b)]"
    using clear_correct [OF d, of env_ok env_ok] ok f by simp
  have g: "filter (\<lambda>v. \<not> synced v) (map snd [(''a'', report_a), (''b'', report_b)]) = [report_a, report_b]"
    by (simp add: report_a_def report_b_def report_data.defs OfflineReport.defs)
  have "pendingReports (snd (clearSyncedReports env_ok world_ab)) =
      newest_first (filter (\<lambda>v. \<not> synced v) (map snd (storage (snd (clearSyncedReports env_ok world_ab)))))"
    using clear_correct [OF d, of env_ok env_ok] ok by blast
  then have p: "pendingReports (snd (clearSyncedReports env_ok world_ab)) = [report_b, report_a]"
    by (simp only: st g newest_first_ba)
  have s2: "storage (snd (clearSyncedReports env_ok (snd (clearSyncedReports env_ok world_ab))))
       = [(''a'', report_a), (''b'', report_b)]"
    using clear_correct [OF d, of env_ok env_ok] ok by (simp add: st)
  show ?thesis using d st p s2 by simp
qed

subsection \<open>C8: storage failures in load and clear\<close>

text \<open>
  Claim C8, as stated: a storage failure raised during \<open>loadPendingReports\<close> or
  \<open>clearSyncedReports\<close> propagates to the caller. With a store whose iteration fails,
  neither operation returns that failure.
\<close>

theorem storage_error_not_propagated_counterexample:
  "iterate_error env_storage_down (trace world_ab) = Some (Error ''QuotaExceeded'')
   \<and> fst (loadPendingReports env_storage_down world_ab) \<noteq> Inl (Error ''QuotaExceeded'')
   \<and> fst (clearSyncedReports env_storage_down world_ab) \<noteq> Inl (Error ''QuotaExceeded'')"
  by (simp add: env_storage_down_def)

text \<open>
  Claim C8, amended: a storage failure raised during \<open>loadPendingReports\<close> or
  \<open>clearSyncedReports\<close> is caught inside that operation and written to the console; the
  operation completes normally whatever the store does. The errors written to the console
  during the operation are exactly the errors that the store returned to its calls
  (\<open>iterate\<close> and \<open>removeItem\<close>, the reload of \<open>clearSyncedReports\<close> included), in
  order. When the iteration fails, the only effect is the attempted iteration and the
  console message; when the first removal fails, it is the iteration, the attempted removal
  and the console message.
\<close>

theorem storage_errors_caught_and_logged:
  "fst (loadPendingReports env w) = Inr ()
   \<and> fst (clearSyncedReports env w) = Inr ()
   \<and> trace (snd (loadPendingReports env w)) = trace w @ new_events w (snd (loadPendingReports env w))
   \<and> trace (snd (clearSyncedReports env w)) = trace w @ new_events w (snd (clearSyncedReports env w))
   \<and> map snd (console_errors (new_events w (snd (loadPendingReports env w))))
        = storage_failures env (trace w) (new_events w (snd (loadPendingReports env w)))
   \<and> map snd (console_errors (new_events w (snd (clearSyncedReports env w))))
        = storage_failures env (trace w) (new_events w (snd (clearSyncedReports env w)))
   \<and> (iterate_error env (trace w) = Some e \<longrightarrow>
        snd (loadPendingReports env w) =
          w\<lparr>trace := trace w @ [Iterate, ConsoleError ''Error loading pending reports:'' e]\<rparr>
      \<and> snd (clearSyncedReports env w) =
          w\<lparr>trace := trace w @ [Iterate, ConsoleError ''Error clearing synced reports:'' e]\<rparr>)
   \<and> (iterate_error env (trace w) = None
        \<and> map fst (filter (\<lambda>(key, v). synced v) (storage w)) = key # keys
        \<and> removeItem_error env (trace w @ [Iterate]) key = Some e \<longrightarrow>
        snd (clearSyncedReports env w) =
          w\<lparr>trace := trace w @ [Iterate, RemoveItem key,
                 ConsoleError ''Error clearing synced reports:'' e]\<rparr>)"
proof -
  obtain lnew where l: "trace (snd (loadPendingReports env w)) = trace w @ lnew"
    "map snd (console_errors lnew) = storage_failures env (trace w) lnew"
    using load_reports_failures [of env w] by blast
  obtain cnew where c: "trace (snd (clearSyncedReports env w)) = trace w @ cnew"
    "map snd (console_errors cnew) = storage_failures env (trace w) cnew"
    using clear_reports_failures [of env w] by blast
  have ln: "new_events w (snd (loadPendingReports env w)) = lnew"
    by (rule new_events_append [OF l(1)])
  have cn: "new_events w (snd (clearSyncedReports env w)) = cnew"
    by (rule new_events_append [OF c(1)])
  show ?thesis
    using l c by (simp add: ln cn load_fail clear_iterate_fail clear_first_removal_fails)
qed

theorem storage_errors_caught_and_logged_witness:
  "iterate_error env_storage_down (trace world_ab) = Some (Error ''QuotaExceeded'')
   \<and> fst (loadPendingReports env_storage_down world_ab) = Inr ()
   \<and> fst (clearSyncedReports env_storage_down world_ab) = Inr ()
   \<and> trace (snd (loadPendingReports env_storage_down world_ab)) =
        [Iterate, ConsoleError ''Error loading pending reports:'' (Error ''QuotaExceeded'')]
   \<and> trace (snd (clearSyncedReports env_storage_down world_ab)) =
        [Iterate, ConsoleError ''Error clearing synced reports:'' (Error ''QuotaExceeded'')]
   \<and> iterate_error env_remove_fails (trace world_ab) = None
   \<and> removeItem_error env_remove_fails (trace world_ab @ [Iterate]) ''c'' = Some (Error ''blocked'')
   \<and> fst (clearSyncedReports env_remove_fails world_ab) = Inr ()
   \<and> trace (snd (clearSyncedReports env_remove_fails world_ab)) =
        [Iterate, RemoveItem ''c'', ConsoleError ''Error clearing synced reports:'' (Error ''blocked'')]
   \<and> storage_failures env_remove_fails (trace world_ab)
        (new_events world_ab (snd (clearSyncedReports env_remove_fails world_ab))) = [Error ''blocked'']
   \<and> console_errors (new_events world_ab (snd (clearSyncedReports env_remove_fails world_ab)))
        = [(''Error clearing synced reports:'', Error ''blocked'')]"
proof -
  have t: "trace world_ab = []" by (simp add: world_ab_def world0_def)
  have h1: "iterate_error env_storage_down (trace world_ab) = Some (Error ''QuotaExceeded'')"
    by (simp add: env_storage_down_def)
  have h2: "iterate_error env_remove_fails (trace world_ab) = None"
    "removeItem_error env_remove_fails (trace world_ab @ [Iterate]) ''c'' = Some (Error ''blocked'')"
    by (simp_all add: env_remove_fails_def env_ok_def)
  note a = storage_errors_caught_and_logged [of env_storage_down world_ab "Error ''QuotaExceeded''"]
  note b = storage_errors_caught_and_logged
    [of env_remove_fails world_ab "Error ''blocked''" "''c''" "[]"]
  have a': "trace (snd (loadPendingReports env_storage_down world_ab)) =
        [Iterate, ConsoleError ''Error loading pending reports:'' (Error ''QuotaExceeded'')]"
    "trace (snd (clearSyncedReports env_storage_down world_ab)) =
        [Iterate, ConsoleError ''Error clearing synced reports:'' (Error ''QuotaExceeded'')]"
    using a h1 by (simp_all add: t)
  have b1: "snd (clearSyncedReports env_remove_fails world_ab) =
      world_ab\<lparr>trace := trace world_ab @ [Iterate, RemoveItem ''c'',
                 ConsoleError ''Error clearing synced reports:'' (Error ''blocked'')]\<rparr>"
    using b h2 synced_keys_world_ab by blast
  have b2: "trace (snd (clearSyncedReports env_remove_fails world_ab)) =
        [Iterate, RemoveItem ''c'', ConsoleError ''Error clearing synced reports:'' (Error ''blocked'')]"
    by (simp add: b1 t)
  have ne: "new_events world_ab (snd (clearSyncedReports env_remove_fails world_ab)) =
        [Iterate, RemoveItem ''c'', ConsoleError ''Error clearing synced reports:'' (Error ''blocked'')]"
    by (simp add: new_events_def b2 t)
  have b3: "console_errors (new_events world_ab (snd (clearSyncedReports env_remove_fails world_ab)))
        = [(''Error clearing synced reports:'', Error ''blocked'')]"
    by (simp add: ne)
  have b4: "storage_failures env_remove_fails (trace world_ab)
        (new_events world_ab (snd (clearSyncedReports env_remove_fails world_ab))) = [Error ''blocked'']"
    using b b3 by simp
  show ?thesis
    using h1 h2 a' b2 b3 b4 by simp
qed

subsection \<open>C9: when a drain is scheduled\<close>

text \<open>
  Claim C9, as stated: a drain is scheduled only when reachability goes from unreachable
  to reachable, not on a report of an already reachable state. In a world that is already
  online, \<open>setOnlineStatus true\<close> arms the timer all the same.
\<close>

theorem setOnlineStatus_level_triggered_counterexample:
  "isOnline world0 \<and> timers (setOnlineStatus True world0) = timers world0 @ [1000]"
  by (simp add: world0_def)

text \<open>
  Claim C9, amended: \<open>setOnlineStatus\<close> arms a drain timer (1000 ms) on every call with
  \<open>true\<close>, whatever the reachability was before, and never on a call with \<open>false\<close>;
  \<open>addPendingReport\<close> arms one (500 ms) exactly when the write succeeded and the store is
  online.
\<close>

theorem drain_scheduling:
  "timers (setOnlineStatus status w) = (if status then timers w @ [1000] else timers w)
   \<and> timers (snd (addPendingReport env reportData w)) =
       (if fst (addPendingReport env reportData w) = Inr () \<and> isOnline w
        then timers w @ [500] else timers w)"
  by (simp add: add_cases Let_def split: option.splits)

theorem drain_scheduling_witness:
  "timers (setOnlineStatus True world0) = [1000]
   \<and> timers (setOnlineStatus False world_ab) = []
   \<and> fst (addPendingReport env_ok draft0 world0) = Inr ()
   \<and> timers (snd (addPendingReport env_ok draft0 world0)) = [500]
   \<and> timers (snd (addPendingReport env_ok draft0 world_a_offline)) = []"
  using drain_scheduling [of True world0 env_ok draft0]
    drain_scheduling [of False world_ab env_ok draft0]
    drain_scheduling [of False world_a_offline env_ok draft0]
  by (simp add: world0_def world_ab_def world_a_offline_def add_cases env_ok_def Let_def)

subsection \<open>C10: a failed load publishes nothing\<close>

text \<open>
  Claim C10. If the iteration over the durable store inside \<open>loadPendingReports\<close> throws,
  the projection is exactly what it was before the call and no exception leaves
  \<open>loadPendingReports\<close>; the world differs only by the trace of the attempted iteration and
  of the console message.
\<close>

theorem load_atomic_on_storage_error:
  assumes "iterate_error env (trace w) = Some e"
  shows "fst (loadPendingReports env w) = Inr ()
       \<and> pendingReports (snd (loadPendingReports env w)) = pendingReports w
       \<and> snd (loadPendingReports env w) =
           w\<lparr>trace := trace w @ [Iterate, ConsoleError ''Error loading pending reports:'' e]\<rparr>"
  using assms by (simp add: load_fail)

theorem load_atomic_on_storage_error_witness:
  "iterate_error env_storage_down (trace world_ab) = Some (Error ''QuotaExceeded'')
   \<and> fst (loadPendingReports env_storage_down world_ab) = Inr ()
   \<and> pendingReports (snd (loadPendingReports env_storage_down world_ab)) = [report_b, report_a]"
proof -
  have h: "iterate_error env_storage_down (trace world_ab) = Some (Error ''QuotaExceeded'')"
    by (simp add: env_storage_down_def)
  show ?thesis
    using h load_atomic_on_storage_error [OF h] by (simp add: world_ab_def)
qed

end
